theory Spec2Isabelle
  imports Main
begin

section \<open>Python numerics used by the progress engine\<close>

text \<open>
  Both the completion percentage and the quiz score are computed by the Python expression
  \<^verbatim>\<open>int((a / b) * 100)\<close> on integers \<open>a\<close>, \<open>b\<close>: a true division (the correctly rounded
  binary64 quotient), a binary64 multiplication by \<open>100.0\<close>, and a truncation toward zero.
  A finite non-negative double is represented by a pair of integers \<open>(m, x)\<close> standing for \<open>m * 2 ^ x\<close>.
  Overflow and subnormal numbers are out of reach for the counts handled here (database
  integers) and are not modelled.
\<close>

type_synonym double = "int \<times> int"

text \<open>\<^verbatim>\<open>int.bit_length\<close> of a non-negative integer.\<close>

function bit_length :: "int \<Rightarrow> int" where
  "bit_length n = (if n \<le> 0 then 0 else 1 + bit_length (n div 2))"
  by pat_completeness auto
termination
  by (relation "measure nat") auto

declare bit_length.simps [simp del]

text \<open>The fraction \<open>n / d\<close> multiplied by \<open>2 ^ s\<close>, again as a fraction.\<close>

definition scale2 :: "int \<Rightarrow> int \<Rightarrow> int \<Rightarrow> int \<times> int" where
  "scale2 n d s = (if 0 \<le> s then (n * 2 ^ nat s, d) else (n, d * 2 ^ nat (- s)))"

text \<open>The integer nearest to \<open>n / d\<close>, ties to the even one.\<close>

definition round_half_even :: "int \<Rightarrow> int \<Rightarrow> int" where
  "round_half_even n d =
     (let q = n div d; r = n mod d
      in if 2 * r < d then q
         else if d < 2 * r then q + 1
         else if even q then q else q + 1)"

text \<open>The double nearest to the fraction \<open>n / d\<close> (\<open>d > 0\<close>), 53 significant bits.\<close>

definition nearest_double :: "int \<Rightarrow> int \<Rightarrow> double" where
  "nearest_double n d =
     (if n = 0 then (0, 0)
      else let k = bit_length n - bit_length d;
               e = (case scale2 n d (- k) of (n', d') \<Rightarrow> if d' \<le> n' then k else k - 1)
           in case scale2 n d (52 - e) of (n', d') \<Rightarrow> (round_half_even n' d', e - 52))"

text \<open>\<^verbatim>\<open>a / b\<close> on Python ints; \<open>None\<close> is ZeroDivisionError.\<close>

definition truediv :: "int \<Rightarrow> int \<Rightarrow> double option" where
  "truediv a b = (if b = 0 then None else Some (nearest_double a b))"

text \<open>\<^verbatim>\<open>x * 100\<close> on a float.\<close>

definition fmul100 :: "double \<Rightarrow> double" where
  "fmul100 x = (case x of (m, e) \<Rightarrow> (case scale2 (m * 100) 1 e of (n', d') \<Rightarrow> nearest_double n' d'))"

text \<open>\<^verbatim>\<open>int(x)\<close> on a non-negative float: truncation.\<close>

definition int_of_double :: "double \<Rightarrow> int" where
  "int_of_double x = (case x of (m, e) \<Rightarrow>
      (if 0 \<le> e then m * 2 ^ nat e else m div 2 ^ nat (- e)))"

text \<open>\<^verbatim>\<open>int((a / b) * 100)\<close>.\<close>

definition int_ratio_times_100 :: "int \<Rightarrow> int \<Rightarrow> int option" where
  "int_ratio_times_100 a b = map_option (\<lambda>q. int_of_double (fmul100 q)) (truediv a b)"


section \<open>Data model (app/onboarding/models.py, schemas.py, app/core)\<close>

text \<open>
  Rows carry the columns the service reads or writes. Where two tables have a column of
  the same name, the field is prefixed with the table's initial (\<open>a_id\<close>, \<open>p_id\<close>, ...).
  A \<open>datetime\<close> is a clock reading; \<^verbatim>\<open>datetime.utcnow()\<close> is the \<open>now\<close> argument of
  each operation.
\<close>

type_synonym datetime = nat

datatype OnboardingStatus = NOT_STARTED | IN_PROGRESS | COMPLETED | EXPIRED

text \<open>
  The exception classes of app/core/exceptions.py that the service can raise, and the two
  Python run-time errors its expressions can raise.
\<close>

datatype error =
    ForbiddenException
  | NotFoundException
  | AlreadyExistsException
  | ValidationException
  | AttributeError
  | ZeroDivisionError

fun status_code :: "error \<Rightarrow> nat" where
  "status_code ForbiddenException = 403"
| "status_code NotFoundException = 404"
| "status_code AlreadyExistsException = 409"
| "status_code ValidationException = 422"
| "status_code AttributeError = 500"
| "status_code ZeroDivisionError = 500"

text \<open>
  \<open>quiz_data\<close> is a JSON column: a list of questions, each with an optional
  \<open>correct_answer\<close>, and an optional \<open>passing_score\<close>. Answers are strings.
\<close>

record question =
  correct_answer :: "string option"

record QuizData =
  questions :: "question list"
  passing_score :: "int option"

record OnboardingModule =
  m_id :: nat
  m_flow_id :: nat
  m_order :: int
  is_required :: bool
  content_type :: string
  quiz_data :: "QuizData option"

text \<open>\<open>modules\<close> is the relationship of the flow, loaded in the order of \<open>m_order\<close>.\<close>

record OnboardingFlow =
  f_id :: nat
  f_tenant_id :: nat
  modules :: "OnboardingModule list"

record OnboardingAssignment =
  a_id :: nat
  a_tenant_id :: nat
  a_flow_id :: nat
  a_user_id :: nat
  status :: OnboardingStatus
  assigned_at :: datetime
  started_at :: "datetime option"
  completed_at :: "datetime option"
  due_date :: "datetime option"
  completion_percentage :: int
  assigned_by :: "nat option"

record ModuleProgress =
  p_id :: nat
  assignment_id :: nat
  module_id :: nat
  is_completed :: bool
  p_completed_at :: "datetime option"
  time_spent_minutes :: int
  quiz_score :: "int option"
  quiz_passed :: "bool option"
  p_notes :: "string option"

record OnboardingAssignmentCreate =
  c_flow_id :: nat
  c_user_id :: nat
  c_due_date :: "datetime option"

record CompleteModuleRequest =
  r_notes :: "string option"
  r_time_spent_minutes :: "int option"

record SubmitQuizRequest =
  answers :: "string \<rightharpoonup> string"
  q_time_spent_minutes :: "int option"

text \<open>
  The database session: the three tables in primary-key order and the two sequences that
  number new rows.
\<close>

record Session =
  flows :: "OnboardingFlow list"
  assignments :: "OnboardingAssignment list"
  module_progress :: "ModuleProgress list"
  assignment_seq :: nat
  progress_seq :: nat

section \<open>Service (app/onboarding/service.py)\<close>

definition get_flow :: "Session \<Rightarrow> nat \<Rightarrow> nat \<Rightarrow> error + OnboardingFlow" where
  "get_flow db flow_id tenant_id =
     (case find (\<lambda>f. f_id f = flow_id \<and> f_tenant_id f = tenant_id) (flows db) of
        None \<Rightarrow> Inl NotFoundException
      | Some flow \<Rightarrow> Inr flow)"

text \<open>The rows \<open>assign_flow\<close> adds for the modules of the flow, numbered from the sequence.\<close>

fun new_progress :: "nat \<Rightarrow> nat \<Rightarrow> OnboardingModule list \<Rightarrow> ModuleProgress list" where
  "new_progress pk aid [] = []"
| "new_progress pk aid (m # ms) =
     \<lparr>p_id = pk, assignment_id = aid, module_id = m_id m, is_completed = False,
      p_completed_at = None, time_spent_minutes = 0, quiz_score = None,
      quiz_passed = None, p_notes = None\<rparr> # new_progress (Suc pk) aid ms"

definition assign_flow ::
  "Session \<Rightarrow> nat \<Rightarrow> OnboardingAssignmentCreate \<Rightarrow> nat \<Rightarrow> datetime
     \<Rightarrow> error + (OnboardingAssignment \<times> Session)" where
  "assign_flow db tenant_id data assigned_by_id now =
     (case get_flow db (c_flow_id data) tenant_id of
        Inl e \<Rightarrow> Inl e
      | Inr flow \<Rightarrow>
         (case find (\<lambda>a. a_flow_id a = c_flow_id data \<and> a_user_id a = c_user_id data
                           \<and> status a \<noteq> COMPLETED) (assignments db) of
            Some existing \<Rightarrow> Inl ValidationException
          | None \<Rightarrow>
             (let assignment =
                    \<lparr>a_id = assignment_seq db, a_tenant_id = tenant_id,
                     a_flow_id = c_flow_id data, a_user_id = c_user_id data,
                     status = NOT_STARTED, assigned_at = now, started_at = None,
                     completed_at = None, due_date = c_due_date data,
                     completion_percentage = 0, assigned_by = Some assigned_by_id\<rparr>
              in Inr (assignment,
                      db\<lparr>assignments := assignments db @ [assignment],
                         module_progress := module_progress db
                            @ new_progress (progress_seq db) (a_id assignment) (modules flow),
                         assignment_seq := Suc (assignment_seq db),
                         progress_seq := progress_seq db + length (modules flow)\<rparr>))))"

text \<open>The relationships \<open>assignment.flow\<close>, \<open>assignment.module_progress\<close>,
  \<open>progress.assignment\<close> and \<open>progress.module\<close>.\<close>

definition flow_of :: "Session \<Rightarrow> OnboardingAssignment \<Rightarrow> OnboardingFlow option" where
  "flow_of db a = find (\<lambda>f. f_id f = a_flow_id a) (flows db)"

definition module_progress_of :: "Session \<Rightarrow> nat \<Rightarrow> ModuleProgress list" where
  "module_progress_of db aid = filter (\<lambda>p. assignment_id p = aid) (module_progress db)"

definition assignment_of :: "Session \<Rightarrow> nat \<Rightarrow> OnboardingAssignment option" where
  "assignment_of db aid = find (\<lambda>a. a_id a = aid) (assignments db)"

definition module_of :: "Session \<Rightarrow> nat \<Rightarrow> OnboardingModule option" where
  "module_of db mid = find (\<lambda>m. m_id m = mid) (concat (map modules (flows db)))"

text \<open>The query of \<open>complete_module\<close> and \<open>submit_quiz\<close> for the progress row.\<close>

definition progress_row :: "Session \<Rightarrow> nat \<Rightarrow> nat \<Rightarrow> ModuleProgress option" where
  "progress_row db aid mid =
     find (\<lambda>p. assignment_id p = aid \<and> module_id p = mid) (module_progress db)"

text \<open>\<open>required_completed\<close> of \<open>_update_assignment_progress\<close>.\<close>

definition required_completed :: "OnboardingModule list \<Rightarrow> ModuleProgress list \<Rightarrow> bool" where
  "required_completed ms ps =
     list_all (\<lambda>m. list_ex (\<lambda>p. module_id p = m_id m \<and> is_completed p) ps)
       (filter is_required ms)"

definition update_assignment_progress ::
  "Session \<Rightarrow> OnboardingAssignment \<Rightarrow> datetime \<Rightarrow> error + OnboardingAssignment" where
  "update_assignment_progress db assignment now =
     (case flow_of db assignment of
        None \<Rightarrow> Inl AttributeError
      | Some flow \<Rightarrow>
         (let total_modules = length (modules flow) in
          if total_modules = 0
          then Inr (assignment\<lparr>completion_percentage := 100, status := COMPLETED,
                                completed_at := Some now\<rparr>)
          else
            (let ps = module_progress_of db (a_id assignment);
                 completed_count = length (filter is_completed ps)
             in case int_ratio_times_100 (int completed_count) (int total_modules) of
                  None \<Rightarrow> Inl ZeroDivisionError
                | Some pct \<Rightarrow>
                   (let a1 = assignment\<lparr>completion_percentage := pct\<rparr>
                    in if required_completed (modules flow) ps
                       then Inr (a1\<lparr>status := COMPLETED, completed_at := Some now\<rparr>)
                       else if 0 < completion_percentage a1
                       then Inr (a1\<lparr>status := IN_PROGRESS\<rparr>)
                       else Inr a1))))"

text \<open>Writing a changed row back: the row with the same primary key is replaced.\<close>

definition save_progress :: "ModuleProgress \<Rightarrow> Session \<Rightarrow> Session" where
  "save_progress p' db =
     db\<lparr>module_progress := map (\<lambda>p. if p_id p = p_id p' then p' else p) (module_progress db)\<rparr>"

definition save_assignment :: "OnboardingAssignment \<Rightarrow> Session \<Rightarrow> Session" where
  "save_assignment a' db =
     db\<lparr>assignments := map (\<lambda>a. if a_id a = a_id a' then a' else a) (assignments db)\<rparr>"

text \<open>\<^verbatim>\<open>if not assignment.started_at: ...\<close>, in both operations.\<close>

definition mark_started :: "OnboardingAssignment \<Rightarrow> datetime \<Rightarrow> OnboardingAssignment" where
  "mark_started assignment now =
     (if started_at assignment = None
      then assignment\<lparr>started_at := Some now, status := IN_PROGRESS\<rparr>
      else assignment)"

text \<open>\<^verbatim>\<open>if data.time_spent_minutes: progress.time_spent_minutes = ...\<close>: a value that is
  absent or zero is falsy.\<close>

definition set_time_spent :: "int option \<Rightarrow> ModuleProgress \<Rightarrow> ModuleProgress" where
  "set_time_spent t p =
     (case t of None \<Rightarrow> p
      | Some v \<Rightarrow> if v \<noteq> 0 then p\<lparr>time_spent_minutes := v\<rparr> else p)"

definition set_notes :: "string option \<Rightarrow> ModuleProgress \<Rightarrow> ModuleProgress" where
  "set_notes n p =
     (case n of None \<Rightarrow> p
      | Some v \<Rightarrow> if v \<noteq> [] then p\<lparr>p_notes := Some v\<rparr> else p)"

definition complete_module ::
  "Session \<Rightarrow> nat \<Rightarrow> nat \<Rightarrow> nat \<Rightarrow> CompleteModuleRequest \<Rightarrow> datetime
     \<Rightarrow> error + (ModuleProgress \<times> Session)" where
  "complete_module db aid mid user_id data now =
     (case progress_row db aid mid of
        None \<Rightarrow> Inl NotFoundException
      | Some progress \<Rightarrow>
         (case assignment_of db (assignment_id progress) of
            None \<Rightarrow> Inl AttributeError
          | Some assignment \<Rightarrow>
             if a_user_id assignment \<noteq> user_id then Inl ForbiddenException
             else
               (let progress' =
                      set_time_spent (r_time_spent_minutes data)
                        (set_notes (r_notes data)
                           (progress\<lparr>is_completed := True, p_completed_at := Some now\<rparr>));
                    db1 = save_progress progress' db
                in case update_assignment_progress db1 (mark_started assignment now) now of
                     Inl e \<Rightarrow> Inl e
                   | Inr assignment' \<Rightarrow> Inr (progress', save_assignment assignment' db1))))"


subsection \<open>Quiz grading\<close>

text \<open>\<^verbatim>\<open>str(i)\<close> for an index of \<^verbatim>\<open>enumerate\<close>.\<close>

definition digit_char :: "nat \<Rightarrow> char" where
  "digit_char d = ''0123456789'' ! d"

fun str :: "nat \<Rightarrow> string" where
  "str n = (if n < 10 then [digit_char n] else str (n div 10) @ [digit_char (n mod 10)])"

declare str.simps [simp del]

text \<open>
  The loop over \<^verbatim>\<open>enumerate(questions)\<close>: \<^verbatim>\<open>data.answers.get(str(i))\<close> is compared with
  \<^verbatim>\<open>question.get("correct_answer")\<close>; both are \<open>None\<close> when the key is missing.
\<close>

fun count_correct :: "(string \<rightharpoonup> string) \<Rightarrow> nat \<Rightarrow> question list \<Rightarrow> nat" where
  "count_correct ans i [] = 0"
| "count_correct ans i (q # qs) =
     (if ans (str i) = correct_answer q then 1 else 0) + count_correct ans (Suc i) qs"

definition grade_quiz :: "QuizData \<Rightarrow> (string \<rightharpoonup> string) \<Rightarrow> error + (int \<times> bool)" where
  "grade_quiz qd ans =
     (let qs = questions qd;
          passing = (case passing_score qd of None \<Rightarrow> 70 | Some v \<Rightarrow> v);
          correct_count = count_correct ans 0 qs
      in case (if qs \<noteq> [] then int_ratio_times_100 (int correct_count) (int (length qs))
               else Some 0) of
           None \<Rightarrow> Inl ZeroDivisionError
         | Some score \<Rightarrow> Inr (score, passing \<le> score))"

definition submit_quiz ::
  "Session \<Rightarrow> nat \<Rightarrow> nat \<Rightarrow> nat \<Rightarrow> SubmitQuizRequest \<Rightarrow> datetime
     \<Rightarrow> error + (ModuleProgress \<times> Session)" where
  "submit_quiz db aid mid user_id data now =
     (case progress_row db aid mid of
        None \<Rightarrow> Inl NotFoundException
      | Some progress \<Rightarrow>
         (case module_of db (module_id progress) of
            None \<Rightarrow> Inl AttributeError
          | Some module \<Rightarrow>
             if content_type module \<noteq> ''quiz'' then Inl ValidationException
             else
               (case assignment_of db (assignment_id progress) of
                  None \<Rightarrow> Inl AttributeError
                | Some assignment \<Rightarrow>
                   if a_user_id assignment \<noteq> user_id then Inl ForbiddenException
                   else
                     (case quiz_data module of
                        None \<Rightarrow> Inl AttributeError
                      | Some qd \<Rightarrow>
                         (case grade_quiz qd (answers data) of
                            Inl e \<Rightarrow> Inl e
                          | Inr (score, passed) \<Rightarrow>
                             (let p1 = progress\<lparr>quiz_score := Some score,
                                                 quiz_passed := Some passed\<rparr>;
                                  p2 = (if passed
                                        then p1\<lparr>is_completed := True,
                                                p_completed_at := Some now\<rparr>
                                        else p1);
                                  progress' = set_time_spent (q_time_spent_minutes data) p2;
                                  db1 = save_progress progress' db
                              in case update_assignment_progress db1
                                        (mark_started assignment now) now of
                                   Inl e \<Rightarrow> Inl e
                                 | Inr assignment' \<Rightarrow>
                                     Inr (progress', save_assignment assignment' db1)))))))"

section \<open>Sequencing predicate of the assignment page (AssignmentPage.tsx)\<close>





section \<open>Histories of engine operations\<close>

text \<open>
  A request to the engine. A request that raises leaves the session as it was: every
  raise of the three operations comes before the commit.
\<close>

datatype request =
    Assign nat OnboardingAssignmentCreate nat datetime
  | Complete nat nat nat CompleteModuleRequest datetime
  | Submit nat nat nat SubmitQuizRequest datetime

fun handle :: "Session \<Rightarrow> request \<Rightarrow> Session" where
  "handle db (Assign tenant_id data assigned_by_id now) =
     (case assign_flow db tenant_id data assigned_by_id now of
        Inl e \<Rightarrow> db | Inr (a, db') \<Rightarrow> db')"
| "handle db (Complete aid mid user_id data now) =
     (case complete_module db aid mid user_id data now of
        Inl e \<Rightarrow> db | Inr (p, db') \<Rightarrow> db')"
| "handle db (Submit aid mid user_id data now) =
     (case submit_quiz db aid mid user_id data now of
        Inl e \<Rightarrow> db | Inr (p, db') \<Rightarrow> db')"

definition run :: "Session \<Rightarrow> request list \<Rightarrow> Session" where
  "run db rs = foldl handle db rs"

text \<open>A flow catalogue with no assignment yet.\<close>

definition fresh :: "OnboardingFlow list \<Rightarrow> Session" where
  "fresh fs = \<lparr>flows = fs, assignments = [], module_progress = [],
               assignment_seq = 1, progress_seq = 1\<rparr>"


section \<open>Specification-side notions\<close>

text \<open>The rounded percentage of the specification: the integer nearest to \<open>100 * c / t\<close>.\<close>

definition round_percentage :: "int \<Rightarrow> int \<Rightarrow> int" where
  "round_percentage c t = (200 * c + t) div (2 * t)"

text \<open>
  What the aggregator stores as percentage for a flow's modules and an assignment's
  progress rows: 100 for a flow without modules, otherwise \<^verbatim>\<open>int((completed / total) * 100)\<close>.
\<close>

definition aggregate_percentage :: "OnboardingModule list \<Rightarrow> ModuleProgress list \<Rightarrow> int option" where
  "aggregate_percentage ms ps =
     (if ms = [] then Some 100
      else int_ratio_times_100 (int (length (filter is_completed ps))) (int (length ms)))"

text \<open>An assignment that has been started agrees with its ledger.\<close>

definition started_consistent :: "Session \<Rightarrow> OnboardingAssignment \<Rightarrow> bool" where
  "started_consistent db a =
     (case flow_of db a of
        None \<Rightarrow> False
      | Some f \<Rightarrow>
          aggregate_percentage (modules f) (module_progress_of db (a_id a))
            = Some (completion_percentage a)
          \<and> (status a = COMPLETED
               \<longleftrightarrow> required_completed (modules f) (module_progress_of db (a_id a)))
          \<and> (status a = COMPLETED \<or> status a = IN_PROGRESS))"

text \<open>The invariant of the sessions that the engine's operations produce.\<close>

definition invariant :: "Session \<Rightarrow> bool" where
  "invariant db \<longleftrightarrow>
     distinct (map a_id (assignments db))
     \<and> distinct (map p_id (module_progress db))
     \<and> list_all (\<lambda>a. a_id a < assignment_seq db
            \<and> (if started_at a = None
                then status a = NOT_STARTED \<and> completion_percentage a = 0
                     \<and> completed_at a = None
                else started_consistent db a)) (assignments db)
     \<and> list_all (\<lambda>p. p_id p < progress_seq db
            \<and> assignment_id p < assignment_seq db
            \<and> (quiz_passed p = Some True \<longrightarrow> is_completed p)
            \<and> (is_completed p \<longrightarrow>
                  list_all (\<lambda>a. a_id a = assignment_id p \<longrightarrow> started_at a \<noteq> None)
                    (assignments db))) (module_progress db)"

text \<open>
  Referential integrity (the foreign keys of the tables): the flow of every assignment,
  and the assignment and the module of every progress row, exist.
\<close>

definition linked :: "Session \<Rightarrow> bool" where
  "linked db \<longleftrightarrow>
     list_all (\<lambda>a. flow_of db a \<noteq> None) (assignments db)
     \<and> list_all (\<lambda>p. assignment_of db (assignment_id p) \<noteq> None
                     \<and> module_of db (module_id p) \<noteq> None) (module_progress db)"

section \<open>Example catalogue\<close>

definition text_module :: "nat \<Rightarrow> nat \<Rightarrow> int \<Rightarrow> bool \<Rightarrow> OnboardingModule" where
  "text_module i f pos req =
     \<lparr>m_id = i, m_flow_id = f, m_order = pos, is_required = req,
      content_type = ''text'', quiz_data = None\<rparr>"

definition quiz_four :: QuizData where
  "quiz_four =
     \<lparr>questions = [\<lparr>correct_answer = Some ''A''\<rparr>, \<lparr>correct_answer = Some ''B''\<rparr>,
                   \<lparr>correct_answer = Some ''C''\<rparr>, \<lparr>correct_answer = Some ''D''\<rparr>],
      passing_score = Some 70\<rparr>"

definition quiz_three :: QuizData where
  "quiz_three =
     \<lparr>questions = [\<lparr>correct_answer = Some ''A''\<rparr>, \<lparr>correct_answer = Some ''B''\<rparr>,
                   \<lparr>correct_answer = Some ''C''\<rparr>],
      passing_score = Some 67\<rparr>"

definition flow_two :: OnboardingFlow where
  "flow_two = \<lparr>f_id = 1, f_tenant_id = 1,
                modules = [text_module 10 1 0 True, text_module 11 1 1 True]\<rparr>"

definition flow_three :: OnboardingFlow where
  "flow_three = \<lparr>f_id = 2, f_tenant_id = 1,
                  modules = [text_module 20 2 0 True, text_module 21 2 1 False,
                             text_module 22 2 2 True]\<rparr>"

definition flow_quiz :: OnboardingFlow where
  "flow_quiz = \<lparr>f_id = 3, f_tenant_id = 1,
                 modules = [\<lparr>m_id = 30, m_flow_id = 3, m_order = 0, is_required = True,
                             content_type = ''quiz'', quiz_data = Some quiz_four\<rparr>,
                            text_module 31 3 1 True]\<rparr>"

definition flow_empty :: OnboardingFlow where
  "flow_empty = \<lparr>f_id = 4, f_tenant_id = 1, modules = []\<rparr>"

definition flow_optional :: OnboardingFlow where
  "flow_optional = \<lparr>f_id = 5, f_tenant_id = 1, modules = [text_module 50 5 0 False]\<rparr>"

definition catalogue :: "OnboardingFlow list" where
  "catalogue = [flow_two, flow_three, flow_quiz, flow_empty, flow_optional]"

text \<open>Requests of user 7 in tenant 1, assigned by user 99.\<close>

definition assign_to :: "nat \<Rightarrow> datetime \<Rightarrow> request" where
  "assign_to flow_id now =
     Assign 1 \<lparr>c_flow_id = flow_id, c_user_id = 7, c_due_date = None\<rparr> 99 now"

definition plain :: CompleteModuleRequest where
  "plain = \<lparr>r_notes = None, r_time_spent_minutes = None\<rparr>"

definition timed :: "int \<Rightarrow> CompleteModuleRequest" where
  "timed t = \<lparr>r_notes = None, r_time_spent_minutes = Some t\<rparr>"

definition two_right :: SubmitQuizRequest where
  "two_right = \<lparr>answers = [''0'' \<mapsto> ''A'', ''1'' \<mapsto> ''B'', ''2'' \<mapsto> ''x''],
                 q_time_spent_minutes = None\<rparr>"

definition all_right :: SubmitQuizRequest where
  "all_right = \<lparr>answers = [''0'' \<mapsto> ''A'', ''1'' \<mapsto> ''B'', ''2'' \<mapsto> ''C'', ''3'' \<mapsto> ''D''],
                 q_time_spent_minutes = None\<rparr>"


text \<open>User 7 has completed module 10 of the two-module flow with ten minutes spent.\<close>

definition ten_minutes :: Session where
  "ten_minutes = run (fresh catalogue) [assign_to 1 5, Complete 1 10 7 (timed 10) 6]"

text \<open>User 7 has completed the first of the three modules of flow 2.\<close>

definition one_of_three :: Session where
  "one_of_three = run (fresh catalogue) [assign_to 2 5, Complete 1 20 7 plain 6]"

text \<open>User 7 has been assigned the two-module flow 1; then has completed its first
  module; then both modules.\<close>

definition two_assigned :: Session where
  "two_assigned = run (fresh catalogue) [assign_to 1 5]"

definition two_started :: Session where
  "two_started = run (fresh catalogue) [assign_to 1 5, Complete 1 10 7 plain 6]"

definition two_completed :: Session where
  "two_completed =
     run (fresh catalogue) [assign_to 1 5, Complete 1 10 7 plain 6, Complete 1 11 7 plain 7]"

definition again :: OnboardingAssignmentCreate where
  "again = \<lparr>c_flow_id = 1, c_user_id = 7, c_due_date = None\<rparr>"


definition quiz_passed_once :: Session where
  "quiz_passed_once = run (fresh catalogue) [assign_to 3 5, Submit 1 30 7 all_right 6]"

text \<open>User 7 has completed the two required modules of flow 2 and not the optional one;
  user 7 has been assigned flow 5, whose only module is optional.\<close>

definition required_done :: Session where
  "required_done =
     run (fresh catalogue) [assign_to 2 5, Complete 1 20 7 plain 6, Complete 1 22 7 plain 7]"

definition optional_assigned :: Session where
  "optional_assigned = run (fresh catalogue) [assign_to 5 5]"



section \<open>Basic facts about the service\<close>

lemma int_ratio_times_100_Some: "b \<noteq> 0 \<Longrightarrow> \<exists>v. int_ratio_times_100 a b = Some v"
  by (simp add: int_ratio_times_100_def truediv_def)

text \<open>
  Values of \<^verbatim>\<open>int((a / b) * 100)\<close>. The third is below the exact quotient's 29: the double
  nearest to 0.29, times 100, is 28.999999999999996.
\<close>

lemma int_ratio_times_100_values:
  "int_ratio_times_100 2 3 = Some 66"
  "int_ratio_times_100 2 4 = Some 50"
  "int_ratio_times_100 29 100 = Some 28"
  "int_ratio_times_100 3 3 = Some 100"
  "int_ratio_times_100 0 3 = Some 0"
  "int_ratio_times_100 1 0 = None"
  by code_simp+

lemma flow_of_save_progress [simp]: "flow_of (save_progress p db) a = flow_of db a"
  by (simp add: flow_of_def save_progress_def)

lemma flow_of_mark_started [simp]: "flow_of db (mark_started a now) = flow_of db a"
  by (simp add: flow_of_def mark_started_def)

lemma mark_started_fields [simp]:
  "a_id (mark_started a now) = a_id a"
  "a_flow_id (mark_started a now) = a_flow_id a"
  "a_user_id (mark_started a now) = a_user_id a"
  "completed_at (mark_started a now) = completed_at a"
  "started_at (mark_started a now) = (case started_at a of None \<Rightarrow> Some now | Some t \<Rightarrow> Some t)"
  by (auto simp: mark_started_def split: option.splits)

lemma set_time_spent_fields [simp]:
  "p_id (set_time_spent t p) = p_id p"
  "assignment_id (set_time_spent t p) = assignment_id p"
  "module_id (set_time_spent t p) = module_id p"
  "is_completed (set_time_spent t p) = is_completed p"
  "quiz_passed (set_time_spent t p) = quiz_passed p"
  "quiz_score (set_time_spent t p) = quiz_score p"
  "time_spent_minutes (set_time_spent t p) =
     (case t of None \<Rightarrow> time_spent_minutes p
      | Some v \<Rightarrow> if v = 0 then time_spent_minutes p else v)"
  by (auto simp: set_time_spent_def split: option.splits)

lemma set_notes_fields [simp]:
  "p_id (set_notes n p) = p_id p"
  "assignment_id (set_notes n p) = assignment_id p"
  "module_id (set_notes n p) = module_id p"
  "is_completed (set_notes n p) = is_completed p"
  "quiz_passed (set_notes n p) = quiz_passed p"
  "quiz_score (set_notes n p) = quiz_score p"
  "time_spent_minutes (set_notes n p) = time_spent_minutes p"
  by (auto simp: set_notes_def split: option.splits)

text \<open>What a run of the aggregator that returns has written.\<close>

lemma update_assignment_progress_Inr:
  assumes "update_assignment_progress db a now = Inr a'"
  shows "\<exists>f. flow_of db a = Some f
           \<and> aggregate_percentage (modules f) (module_progress_of db (a_id a))
               = Some (completion_percentage a')
           \<and> (if required_completed (modules f) (module_progress_of db (a_id a))
               then status a' = COMPLETED \<and> completed_at a' = Some now
               else completed_at a' = completed_at a
                    \<and> (status a' = IN_PROGRESS \<or> status a' = status a))
           \<and> a_id a' = a_id a \<and> a_flow_id a' = a_flow_id a \<and> a_user_id a' = a_user_id a
           \<and> started_at a' = started_at a"
proof -
  from assms obtain f where f: "flow_of db a = Some f"
    by (cases "flow_of db a") (simp_all add: update_assignment_progress_def)
  let ?ps = "module_progress_of db (a_id a)"
  show ?thesis
  proof (cases "modules f = []")
    case True
    with assms f have "a' = a\<lparr>completion_percentage := 100, status := COMPLETED,
                                completed_at := Some now\<rparr>"
      by (simp add: update_assignment_progress_def)
    with True f show ?thesis
      by (simp add: aggregate_percentage_def required_completed_def)
  next
    case False
    let ?r = "int_ratio_times_100 (int (length (filter is_completed ?ps)))
                (int (length (modules f)))"
    from assms f False obtain pct where pct: "?r = Some pct"
      by (cases ?r) (simp_all add: update_assignment_progress_def Let_def)
    show ?thesis
    proof (cases "required_completed (modules f) ?ps")
      case True
      with assms f False pct
      have "a' = a\<lparr>completion_percentage := pct, status := COMPLETED,
                      completed_at := Some now\<rparr>"
        by (simp add: update_assignment_progress_def Let_def)
      with True False f pct show ?thesis by (simp add: aggregate_percentage_def)
    next
      case nreq: False
      show ?thesis
      proof (cases "0 < pct")
        case True
        with assms f False pct nreq
        have "a' = a\<lparr>completion_percentage := pct, status := IN_PROGRESS\<rparr>"
          by (simp add: update_assignment_progress_def Let_def)
        with nreq False f pct show ?thesis by (simp add: aggregate_percentage_def)
      next
        case npos: False
        with assms f False pct nreq
        have "a' = a\<lparr>completion_percentage := pct\<rparr>"
          by (simp add: update_assignment_progress_def Let_def)
        with nreq False f pct show ?thesis by (simp add: aggregate_percentage_def)
      qed
    qed
  qed
qed

text \<open>The aggregator returns whenever the assignment's flow is in the catalogue.\<close>

lemma update_assignment_progress_total:
  assumes "flow_of db a = Some f"
  shows "\<exists>a'. update_assignment_progress db a now = Inr a'"
proof (cases "modules f = []")
  case True
  then show ?thesis using assms by (simp add: update_assignment_progress_def)
next
  case False
  then obtain v where "int_ratio_times_100
      (int (length (filter is_completed (module_progress_of db (a_id a)))))
      (int (length (modules f))) = Some v"
    using int_ratio_times_100_Some [of "int (length (modules f))"] by auto
  then show ?thesis using assms False
    by (simp add: update_assignment_progress_def Let_def)
qed

text \<open>The shape of a successful \<open>complete_module\<close> and \<open>submit_quiz\<close>.\<close>

lemma complete_module_Inr:
  assumes "complete_module db aid mid uid data now = Inr (p', db')"
  shows "\<exists>p a a'. progress_row db aid mid = Some p
           \<and> assignment_of db (assignment_id p) = Some a \<and> a_user_id a = uid
           \<and> p' = set_time_spent (r_time_spent_minutes data)
                    (set_notes (r_notes data)
                       (p\<lparr>is_completed := True, p_completed_at := Some now\<rparr>))
           \<and> update_assignment_progress (save_progress p' db) (mark_started a now) now = Inr a'
           \<and> db' = save_assignment a' (save_progress p' db)"
  using assms
  by (auto simp: complete_module_def Let_def split: option.splits if_splits sum.splits)

lemma submit_quiz_Inr:
  assumes "submit_quiz db aid mid uid data now = Inr (p', db')"
  shows "\<exists>p m a qd score passed a'. progress_row db aid mid = Some p
           \<and> module_of db (module_id p) = Some m \<and> content_type m = ''quiz''
           \<and> assignment_of db (assignment_id p) = Some a \<and> a_user_id a = uid
           \<and> quiz_data m = Some qd \<and> grade_quiz qd (answers data) = Inr (score, passed)
           \<and> p' = set_time_spent (q_time_spent_minutes data)
                    (if passed
                     then p\<lparr>quiz_score := Some score, quiz_passed := Some passed,
                            is_completed := True, p_completed_at := Some now\<rparr>
                     else p\<lparr>quiz_score := Some score, quiz_passed := Some passed\<rparr>)
           \<and> update_assignment_progress (save_progress p' db) (mark_started a now) now = Inr a'
           \<and> db' = save_assignment a' (save_progress p' db)"
  using assms
  by (auto simp: submit_quiz_def Let_def split: option.splits if_splits sum.splits prod.splits)

section \<open>Rows and lookups\<close>

lemma progress_row_Some:
  "progress_row db aid mid = Some p \<Longrightarrow>
     p \<in> set (module_progress db) \<and> assignment_id p = aid \<and> module_id p = mid"
  by (auto simp: progress_row_def find_Some_iff)

lemma assignment_of_Some:
  "assignment_of db aid = Some a \<Longrightarrow> a \<in> set (assignments db) \<and> a_id a = aid"
  by (auto simp: assignment_of_def find_Some_iff)

lemma find_replace_by_key:
  assumes "find (\<lambda>x. key x = k) xs = Some x" and "key x' = k"
  shows "find (\<lambda>x. key x = k) (map (\<lambda>y. if key y = key x' then x' else y) xs) = Some x'"
  using assms by (induction xs) (auto split: if_splits)


lemma assignment_of_save_assignment:
  assumes "assignment_of db aid = Some a" and "a_id a' = aid"
  shows "assignment_of (save_assignment a' db) aid = Some a'"
  using find_replace_by_key [of a_id aid "assignments db" a a'] assms
  by (simp add: assignment_of_def save_assignment_def)


lemma assignment_of_save_progress [simp]:
  "assignment_of (save_progress p db) aid = assignment_of db aid"
  by (simp add: assignment_of_def save_progress_def)

lemma module_progress_of_save_assignment [simp]:
  "module_progress_of (save_assignment a db) aid = module_progress_of db aid"
  by (simp add: module_progress_of_def save_assignment_def)

lemma flows_save [simp]:
  "flows (save_assignment a db) = flows db"
  "flows (save_progress p db) = flows db"
  by (simp_all add: save_assignment_def save_progress_def)

lemma flow_of_eq:
  "flows db' = flows db \<Longrightarrow> a_flow_id a' = a_flow_id a \<Longrightarrow> flow_of db' a' = flow_of db a"
  by (simp add: flow_of_def)

lemma flow_of_save_assignment [simp]: "flow_of (save_assignment a' db) a = flow_of db a"
  by (simp add: flow_of_def save_assignment_def)

text \<open>Both mutating operations, seen as one change of a progress row followed by the
  aggregator.\<close>

lemma mutation_Inr:
  assumes "complete_module db aid mid uid data now = Inr (p', db')
           \<or> submit_quiz db aid mid uid qdata now = Inr (p', db')"
  shows "\<exists>p a a'. progress_row db aid mid = Some p
           \<and> assignment_of db aid = Some a \<and> a_user_id a = uid
           \<and> p_id p' = p_id p \<and> assignment_id p' = aid \<and> module_id p' = mid
           \<and> (is_completed p \<longrightarrow> is_completed p')
           \<and> (quiz_passed p' = Some True \<longrightarrow> is_completed p')
           \<and> update_assignment_progress (save_progress p' db) (mark_started a now) now = Inr a'
           \<and> db' = save_assignment a' (save_progress p' db)"
  using assms
proof
  assume "complete_module db aid mid uid data now = Inr (p', db')"
  from complete_module_Inr [OF this] obtain p a a' where
    *: "progress_row db aid mid = Some p" "assignment_of db (assignment_id p) = Some a"
       "a_user_id a = uid"
       "p' = set_time_spent (r_time_spent_minutes data)
               (set_notes (r_notes data) (p\<lparr>is_completed := True, p_completed_at := Some now\<rparr>))"
       "update_assignment_progress (save_progress p' db) (mark_started a now) now = Inr a'"
       "db' = save_assignment a' (save_progress p' db)"
    by blast
  from progress_row_Some [OF *(1)] have "assignment_id p = aid" "module_id p = mid" by auto
  with * show ?thesis by simp
next
  assume "submit_quiz db aid mid uid qdata now = Inr (p', db')"
  from submit_quiz_Inr [OF this] obtain p a a' score passed where
    *: "progress_row db aid mid = Some p" "assignment_of db (assignment_id p) = Some a"
       "a_user_id a = uid"
       "p' = set_time_spent (q_time_spent_minutes qdata)
                    (if passed
                     then p\<lparr>quiz_score := Some score, quiz_passed := Some passed,
                            is_completed := True, p_completed_at := Some now\<rparr>
                     else p\<lparr>quiz_score := Some score, quiz_passed := Some passed\<rparr>)"
       "update_assignment_progress (save_progress p' db) (mark_started a now) now = Inr a'"
       "db' = save_assignment a' (save_progress p' db)"
    by blast
  from progress_row_Some [OF *(1)] have "assignment_id p = aid" "module_id p = mid" by auto
  with * show ?thesis by (cases passed) simp_all
qed

section \<open>Completion percentage\<close>

text \<open>
  C4 (as amended). After every successful module completion or quiz submission, the
  \<open>completion_percentage\<close> of the assignment is \<^verbatim>\<open>int((completed / total) * 100)\<close>
  over the progress rows of the assignment and the modules of its flow (100 for a flow
  without modules): the double-precision quotient, times 100, truncated toward zero, not
  rounded. Two completed modules out of three give 66.
\<close>

theorem completion_percentage_truncated:
  assumes "complete_module db aid mid uid data now = Inr (p', db')
           \<or> submit_quiz db aid mid uid qdata now = Inr (p', db')"
  shows "\<exists>a' f. assignment_of db' aid = Some a' \<and> flow_of db' a' = Some f
           \<and> aggregate_percentage (modules f) (module_progress_of db' aid)
               = Some (completion_percentage a')
           \<and> aggregate_percentage [m1, m2, m3]
                [q1\<lparr>is_completed := True\<rparr>, q2\<lparr>is_completed := True\<rparr>, q3\<lparr>is_completed := False\<rparr>]
               = Some 66"
proof -
  from mutation_Inr [OF assms] obtain p a a' where
    *: "assignment_of db aid = Some a"
       "update_assignment_progress (save_progress p' db) (mark_started a now) now = Inr a'"
       "db' = save_assignment a' (save_progress p' db)"
    by blast
  from assignment_of_Some [OF *(1)] have aid: "a_id a = aid" by simp
  from update_assignment_progress_Inr [OF *(2)] obtain f where
    f: "flow_of db a = Some f"
       "aggregate_percentage (modules f) (module_progress_of (save_progress p' db) aid)
          = Some (completion_percentage a')"
       "a_id a' = a_id a" "a_flow_id a' = a_flow_id a"
    using aid by auto
  have "assignment_of db' aid = Some a'"
    using assignment_of_save_assignment [of "save_progress p' db" aid a a'] * f aid by simp
  moreover have "flow_of db' a' = Some f"
    using f * flow_of_eq [of db' db a' a] by simp
  moreover have "aggregate_percentage (modules f) (module_progress_of db' aid)
                   = Some (completion_percentage a')"
    using f * by simp
  moreover have "int_ratio_times_100 2 3 = Some 66" by code_simp
  then have "aggregate_percentage [m1, m2, m3]
                [q1\<lparr>is_completed := True\<rparr>, q2\<lparr>is_completed := True\<rparr>, q3\<lparr>is_completed := False\<rparr>]
               = Some 66"
    by (simp add: aggregate_percentage_def)
  ultimately show ?thesis by blast
qed

text \<open>Completing the second of three modules: the stored percentage is 66.\<close>

theorem completion_percentage_truncated_witness:
  "\<not> isl (complete_module one_of_three 1 21 7 plain 7)
   \<and> (\<exists>a' f. assignment_of (snd (projr (complete_module one_of_three 1 21 7 plain 7))) 1 = Some a'
         \<and> flow_of (snd (projr (complete_module one_of_three 1 21 7 plain 7))) a' = Some f
         \<and> aggregate_percentage (modules f)
              (module_progress_of (snd (projr (complete_module one_of_three 1 21 7 plain 7))) 1)
             = Some (completion_percentage a')
         \<and> completion_percentage a' = 66)"
proof -
  let ?r = "complete_module one_of_three 1 21 7 plain 7"
  have h: "?r = Inr (fst (projr ?r), snd (projr ?r))"
    by code_simp
  have v: "map_option completion_percentage (assignment_of (snd (projr ?r)) 1) = Some 66"
    by code_simp
  from completion_percentage_truncated [of one_of_three 1 21 7 plain 7 "fst (projr ?r)"
      "snd (projr ?r)", OF disjI1 [OF h]]
  obtain a' f where *: "assignment_of (snd (projr ?r)) 1 = Some a'"
      "flow_of (snd (projr ?r)) a' = Some f"
      "aggregate_percentage (modules f) (module_progress_of (snd (projr ?r)) 1)
         = Some (completion_percentage a')"
    by blast
  from v *(1) have "completion_percentage a' = 66" by simp
  moreover have "\<not> isl ?r" using h by (metis sum.disc(2))
  ultimately show ?thesis using * by blast
qed

text \<open>
  The claim as stated fails: with two of three modules completed the stored percentage is
  66, and the rounded percentage is 67.
\<close>

theorem completion_percentage_counterexample:
  "map_option completion_percentage
     (assignment_of (run (fresh catalogue)
        [assign_to 2 5, Complete 1 20 7 plain 6, Complete 1 21 7 plain 7]) 1) = Some 66
   \<and> round_percentage 2 3 = 67"
  by code_simp

section \<open>Quiz grading\<close>

text \<open>The loop counts the indices at which the submitted answer equals the marker.\<close>

lemma count_correct_card:
  "count_correct ans k qs
     = card {i. i < length qs \<and> ans (str (k + i)) = correct_answer (qs ! i)}"
proof (induction qs arbitrary: k)
  case Nil
  show ?case by simp
next
  case (Cons q qs)
  let ?S = "{i. i < length qs \<and> ans (str (Suc k + i)) = correct_answer (qs ! i)}"
  let ?T = "{i. i < length (q # qs) \<and> ans (str (k + i)) = correct_answer ((q # qs) ! i)}"
  have fin: "finite ?S" by simp
  have T: "?T = (if ans (str k) = correct_answer q then {0} else {}) \<union> Suc ` ?S"
  proof (rule set_eqI)
    fix i show "i \<in> ?T \<longleftrightarrow> i \<in> (if ans (str k) = correct_answer q then {0} else {}) \<union> Suc ` ?S"
      by (cases i) (auto simp: image_iff)
  qed
  have img: "card (Suc ` ?S) = card ?S" by (simp add: card_image)
  have "card ((if ans (str k) = correct_answer q then {0} else {}) \<union> Suc ` ?S)
          = (if ans (str k) = correct_answer q then 1 else 0) + card (Suc ` ?S)"
    using fin by (auto simp: card_insert_if)
  with T img have "card ?T = (if ans (str k) = correct_answer q then 1 else 0) + card ?S"
    by (simp only:)
  with Cons.IH [of "Suc k"] show ?case by simp
qed


text \<open>
  C6 (as amended). Grading compares each submitted answer, keyed by the question's index,
  with the question's correct-answer marker and always returns a result: the score is
  \<^verbatim>\<open>int((correct / total) * 100)\<close>, truncated and not rounded, and \<open>passed\<close> is
  \<open>score \<ge> passing_score\<close> with 70 as the passing score when none is configured. A
  quiz without questions has score 0, and is passed exactly when its passing score is at
  most 0; under the default passing score it is not passed.
\<close>

theorem grade_quiz_truncated:
  "\<exists>score. grade_quiz qd ans
              = Inr (score, (case passing_score qd of None \<Rightarrow> 70 | Some v \<Rightarrow> v) \<le> score)
     \<and> (if questions qd = [] then score = 0
         else int_ratio_times_100
                (int (card {i. i < length (questions qd)
                               \<and> ans (str i) = correct_answer (questions qd ! i)}))
                (int (length (questions qd))) = Some score)"
proof (cases "questions qd = []")
  case True
  then show ?thesis by (simp add: grade_quiz_def)
next
  case False
  then obtain v where v: "int_ratio_times_100 (int (count_correct ans 0 (questions qd)))
      (int (length (questions qd))) = Some v"
    using int_ratio_times_100_Some [of "int (length (questions qd))"] by auto
  with False have "grade_quiz qd ans
      = Inr (v, (case passing_score qd of None \<Rightarrow> 70 | Some v \<Rightarrow> v) \<le> v)"
    by (simp add: grade_quiz_def Let_def)
  moreover from v have "int_ratio_times_100
                (int (card {i. i < length (questions qd)
                               \<and> ans (str i) = correct_answer (questions qd ! i)}))
                (int (length (questions qd))) = Some v"
    using count_correct_card [of ans 0 "questions qd"] by simp
  ultimately show ?thesis using False by auto
qed

text \<open>Two of three answers right: score 66; no questions, default passing score: not passed.\<close>

theorem grade_quiz_truncated_witness:
  "grade_quiz quiz_three (answers two_right) = Inr (66, False)
   \<and> grade_quiz \<lparr>questions = [], passing_score = None\<rparr> (answers two_right) = Inr (0, False)"
proof -
  from grade_quiz_truncated [of quiz_three "answers two_right"]
  obtain s where s: "grade_quiz quiz_three (answers two_right)
      = Inr (s, (case passing_score quiz_three of None \<Rightarrow> 70 | Some v \<Rightarrow> v) \<le> s)"
    by blast
  have "grade_quiz quiz_three (answers two_right) = Inr (66, False)"
    by code_simp
  moreover have "grade_quiz \<lparr>questions = [], passing_score = None\<rparr> (answers two_right)
                   = Inr (0, False)"
    using grade_quiz_truncated [of "\<lparr>questions = [], passing_score = None\<rparr>" "answers two_right"]
    by auto
  ultimately show ?thesis by simp
qed

text \<open>
  The claim as stated fails twice: two right answers out of three score 66, not the rounded
  67 that would pass under the passing score 67; and a quiz without questions whose passing
  score is 0 is passed.
\<close>

theorem grade_quiz_counterexample:
  "grade_quiz quiz_three (answers two_right) = Inr (66, False)
   \<and> round_percentage 2 3 = 67
   \<and> passing_score quiz_three = Some 67
   \<and> grade_quiz \<lparr>questions = [], passing_score = Some 0\<rparr> (answers two_right) = Inr (0, True)"
  by code_simp

section \<open>Assigning a flow\<close>

lemma get_flow_Inr:
  "get_flow db fid tid = Inr f \<Longrightarrow> f \<in> set (flows db) \<and> f_id f = fid \<and> f_tenant_id f = tid"
  by (auto simp: get_flow_def find_Some_iff split: option.splits)

lemma find_by_distinct_key:
  assumes "distinct (map key xs)" and "x \<in> set xs"
  shows "find (\<lambda>y. key y = key x) xs = Some x"
  using assms by (induction xs) (auto simp: image_iff)

lemma assign_flow_Inr:
  assumes "assign_flow db tid data by now = Inr (a, db')"
  shows "\<exists>f. get_flow db (c_flow_id data) tid = Inr f
           \<and> \<not> list_ex (\<lambda>a. a_flow_id a = c_flow_id data \<and> a_user_id a = c_user_id data
                                \<and> status a \<noteq> COMPLETED) (assignments db)
           \<and> a = \<lparr>a_id = assignment_seq db, a_tenant_id = tid,
                     a_flow_id = c_flow_id data, a_user_id = c_user_id data,
                     status = NOT_STARTED, assigned_at = now, started_at = None,
                     completed_at = None, due_date = c_due_date data,
                     completion_percentage = 0, assigned_by = Some by\<rparr>
           \<and> db' = db\<lparr>assignments := assignments db @ [a],
                       module_progress := module_progress db
                          @ new_progress (progress_seq db) (a_id a) (modules f),
                       assignment_seq := Suc (assignment_seq db),
                       progress_seq := progress_seq db + length (modules f)\<rparr>"
proof -
  from assms obtain f where f: "get_flow db (c_flow_id data) tid = Inr f"
    by (cases "get_flow db (c_flow_id data) tid") (simp_all add: assign_flow_def)
  let ?P = "\<lambda>a. a_flow_id a = c_flow_id data \<and> a_user_id a = c_user_id data
                  \<and> status a \<noteq> COMPLETED"
  from assms f have n: "find ?P (assignments db) = None"
    by (cases "find ?P (assignments db)") (simp_all add: assign_flow_def)
  then have "\<not> list_ex ?P (assignments db)"
    by (simp add: find_None_iff list_ex_iff)
  with assms f n show ?thesis
    by (auto simp: assign_flow_def Let_def)
qed

text \<open>
  C2 (as amended). For every flow with zero modules, a successful \<open>assign_flow\<close> yields an
  assignment with the defaults: \<open>completion_percentage\<close> 0, status \<open>NOT_STARTED\<close> and
  \<open>completed_at\<close> unset, and it adds no progress row. The values 100, \<open>COMPLETED\<close> and a
  set \<open>completed_at\<close> are what the aggregator writes when it is run on such an
  assignment; \<open>assign_flow\<close> does not run it. (Flow ids are primary keys.)
\<close>

theorem assign_flow_defaults:
  assumes "distinct (map f_id (flows db))"
    and "get_flow db (c_flow_id data) tid = Inr f"
    and "modules f = []"
    and "assign_flow db tid data by now = Inr (a, db')"
  shows "status a = NOT_STARTED \<and> completion_percentage a = 0 \<and> completed_at a = None
         \<and> started_at a = None
         \<and> assignments db' = assignments db @ [a]
         \<and> module_progress db' = module_progress db
         \<and> update_assignment_progress db' a now'
             = Inr (a\<lparr>completion_percentage := 100, status := COMPLETED,
                       completed_at := Some now'\<rparr>)"
proof -
  from assign_flow_Inr [OF assms(4)] assms(2) have
    a: "a = \<lparr>a_id = assignment_seq db, a_tenant_id = tid,
                     a_flow_id = c_flow_id data, a_user_id = c_user_id data,
                     status = NOT_STARTED, assigned_at = now, started_at = None,
                     completed_at = None, due_date = c_due_date data,
                     completion_percentage = 0, assigned_by = Some by\<rparr>"
    and db': "db' = db\<lparr>assignments := assignments db @ [a],
                       module_progress := module_progress db
                          @ new_progress (progress_seq db) (a_id a) (modules f),
                       assignment_seq := Suc (assignment_seq db),
                       progress_seq := progress_seq db + length (modules f)\<rparr>"
    by auto
  from get_flow_Inr [OF assms(2)] have "f \<in> set (flows db)" "f_id f = c_flow_id data" by auto
  with find_by_distinct_key [OF assms(1), of f] a
  have "flow_of db' a = Some f" by (simp add: flow_of_def db')
  with assms(3) have "update_assignment_progress db' a now'
             = Inr (a\<lparr>completion_percentage := 100, status := COMPLETED,
                       completed_at := Some now'\<rparr>)"
    by (simp add: update_assignment_progress_def)
  moreover have "status a = NOT_STARTED" "completion_percentage a = 0" "completed_at a = None"
    "started_at a = None" by (simp_all add: a)
  moreover have "assignments db' = assignments db @ [a]" by (simp add: db')
  moreover have "module_progress db' = module_progress db" by (simp add: db' assms(3))
  ultimately show ?thesis by blast
qed

text \<open>Assigning the empty flow 4 of the catalogue.\<close>

theorem assign_flow_defaults_witness:
  "\<not> isl (assign_flow (fresh catalogue) 1 \<lparr>c_flow_id = 4, c_user_id = 7, c_due_date = None\<rparr> 99 5)
   \<and> status (fst (projr (assign_flow (fresh catalogue) 1
          \<lparr>c_flow_id = 4, c_user_id = 7, c_due_date = None\<rparr> 99 5))) = NOT_STARTED
   \<and> completion_percentage (fst (projr (assign_flow (fresh catalogue) 1
          \<lparr>c_flow_id = 4, c_user_id = 7, c_due_date = None\<rparr> 99 5))) = 0
   \<and> completed_at (fst (projr (assign_flow (fresh catalogue) 1
          \<lparr>c_flow_id = 4, c_user_id = 7, c_due_date = None\<rparr> 99 5))) = None"
proof -
  let ?d = "\<lparr>c_flow_id = 4, c_user_id = 7, c_due_date = None\<rparr>"
  let ?r = "assign_flow (fresh catalogue) 1 ?d 99 5"
  have h1: "distinct (map f_id (flows (fresh catalogue)))" by code_simp
  have h2: "get_flow (fresh catalogue) (c_flow_id ?d) 1 = Inr flow_empty" by code_simp
  have h3: "modules flow_empty = []" by code_simp
  have h4: "?r = Inr (fst (projr ?r), snd (projr ?r))" by code_simp
  from assign_flow_defaults [OF h1 h2 h3 h4]
  have "status (fst (projr ?r)) = NOT_STARTED \<and> completion_percentage (fst (projr ?r)) = 0
        \<and> completed_at (fst (projr ?r)) = None"
    by blast
  moreover have "\<not> isl ?r" using h4 by (metis sum.disc(2))
  ultimately show ?thesis by blast
qed

text \<open>The claim as stated fails: the assignment of the empty flow has percentage 0, status
  \<open>NOT_STARTED\<close> and no \<open>completed_at\<close>.\<close>

theorem assign_flow_counterexample:
  "modules flow_empty = []
   \<and> map_sum id ((\<lambda>a. (completion_percentage a, status a, completed_at a)) \<circ> fst)
        (assign_flow (fresh catalogue) 1 \<lparr>c_flow_id = 4, c_user_id = 7, c_due_date = None\<rparr> 99 5)
       = Inr (0, NOT_STARTED, None)"
  by code_simp

text \<open>
  C3 (as amended). When the flow is one of the caller's tenant and the pair (flow, user)
  already has an assignment that is not \<open>COMPLETED\<close>, a further \<open>assign_flow\<close> fails
  with the validation error (HTTP 422), not with the conflict error (HTTP 409), and
  leaves the session as it was: no assignment and no progress row is created. When every
  assignment of the pair is \<open>COMPLETED\<close> (or there is none), \<open>assign_flow\<close> succeeds and
  appends the new assignment. A flow that the caller's tenant does not have fails with
  the not-found error before the pair is looked at.
\<close>

theorem assign_flow_duplicate:
  "(get_flow db (c_flow_id data) tid = Inr f
      \<and> list_ex (\<lambda>a. a_flow_id a = c_flow_id data \<and> a_user_id a = c_user_id data
                       \<and> status a \<noteq> COMPLETED) (assignments db)
    \<longrightarrow> assign_flow db tid data ab now = Inl ValidationException
        \<and> status_code ValidationException = 422
        \<and> handle db (Assign tid data ab now) = db)
   \<and> (get_flow db (c_flow_id data) tid = Inr f
      \<and> \<not> list_ex (\<lambda>a. a_flow_id a = c_flow_id data \<and> a_user_id a = c_user_id data
                         \<and> status a \<noteq> COMPLETED) (assignments db)
    \<longrightarrow> (\<exists>a db'. assign_flow db tid data ab now = Inr (a, db')
           \<and> assignments db' = assignments db @ [a]
           \<and> a_flow_id a = c_flow_id data \<and> a_user_id a = c_user_id data))
   \<and> (get_flow db (c_flow_id data) tid = Inl e
    \<longrightarrow> e = NotFoundException \<and> assign_flow db tid data ab now = Inl NotFoundException
        \<and> handle db (Assign tid data ab now) = db)"
proof (intro conjI impI)
  let ?P = "\<lambda>a. a_flow_id a = c_flow_id data \<and> a_user_id a = c_user_id data
                  \<and> status a \<noteq> COMPLETED"
  {
    assume h: "get_flow db (c_flow_id data) tid = Inr f \<and> list_ex ?P (assignments db)"
    then obtain x where "find ?P (assignments db) = Some x"
      by (cases "find ?P (assignments db)") (auto simp: find_None_iff list_ex_iff)
    with h have r: "assign_flow db tid data ab now = Inl ValidationException"
      by (simp add: assign_flow_def)
    then show "assign_flow db tid data ab now = Inl ValidationException" .
    show "status_code ValidationException = 422" by simp
    from r show "handle db (Assign tid data ab now) = db" by simp
  }
  {
    assume h: "get_flow db (c_flow_id data) tid = Inr f \<and> \<not> list_ex ?P (assignments db)"
    then have "find ?P (assignments db) = None"
      by (simp add: find_None_iff list_ex_iff)
    with h show "\<exists>a db'. assign_flow db tid data ab now = Inr (a, db')
                 \<and> assignments db' = assignments db @ [a]
                 \<and> a_flow_id a = c_flow_id data \<and> a_user_id a = c_user_id data"
      by (simp add: assign_flow_def Let_def)
  }
  {
    assume h: "get_flow db (c_flow_id data) tid = Inl e"
    then show e: "e = NotFoundException"
      by (auto simp: get_flow_def split: option.splits)
    with h have r: "assign_flow db tid data ab now = Inl NotFoundException"
      by (simp add: assign_flow_def)
    then show "assign_flow db tid data ab now = Inl NotFoundException" .
    from r show "handle db (Assign tid data ab now) = db" by simp
  }
qed

text \<open>A second assignment of flow 1 to user 7: refused while the first is in progress,
  accepted once it is completed, and not found from tenant 2.\<close>

theorem assign_flow_duplicate_witness:
  "map status (assignments two_started) = [IN_PROGRESS]
   \<and> assign_flow two_started 1 again 99 8 = Inl ValidationException
   \<and> handle two_started (Assign 1 again 99 8) = two_started
   \<and> map status (assignments two_completed) = [COMPLETED]
   \<and> (\<exists>a db'. assign_flow two_completed 1 again 99 8 = Inr (a, db')
         \<and> assignments db' = assignments two_completed @ [a])
   \<and> assign_flow two_started 2 again 99 8 = Inl NotFoundException"
proof -
  have g1: "get_flow two_started (c_flow_id again) 1 = Inr flow_two" by code_simp
  have g2: "get_flow two_completed (c_flow_id again) 1 = Inr flow_two" by code_simp
  have g3: "get_flow two_started (c_flow_id again) 2 = Inl NotFoundException" by code_simp
  have e1: "list_ex (\<lambda>a. a_flow_id a = c_flow_id again \<and> a_user_id a = c_user_id again
                       \<and> status a \<noteq> COMPLETED) (assignments two_started)"
    by code_simp
  have e2: "\<not> list_ex (\<lambda>a. a_flow_id a = c_flow_id again \<and> a_user_id a = c_user_id again
                       \<and> status a \<noteq> COMPLETED) (assignments two_completed)"
    by code_simp
  have s1: "map status (assignments two_started) = [IN_PROGRESS]" by code_simp
  have s2: "map status (assignments two_completed) = [COMPLETED]" by code_simp
  from assign_flow_duplicate [THEN conjunct1, THEN mp, OF conjI [OF g1 e1], of 99 8]
  have a1: "assign_flow two_started 1 again 99 8 = Inl ValidationException"
    and a2: "handle two_started (Assign 1 again 99 8) = two_started"
    by blast+
  from assign_flow_duplicate [THEN conjunct2, THEN conjunct1, THEN mp, OF conjI [OF g2 e2],
      of 99 8]
  have a3: "\<exists>a db'. assign_flow two_completed 1 again 99 8 = Inr (a, db')
         \<and> assignments db' = assignments two_completed @ [a]"
    by blast
  from assign_flow_duplicate [THEN conjunct2, THEN conjunct2, THEN mp, OF g3, of 99 8]
  have a4: "assign_flow two_started 2 again 99 8 = Inl NotFoundException"
    by blast
  from s1 a1 a2 s2 a3 a4 show ?thesis by (intro conjI)
qed

text \<open>The claim as stated fails: the error of the duplicate assignment is the validation
  error, a different kind than the conflict error.\<close>

theorem assign_flow_duplicate_counterexample:
  "map status (assignments two_started) = [IN_PROGRESS]
   \<and> assign_flow two_started 1 again 99 8 = Inl ValidationException
   \<and> ValidationException \<noteq> AlreadyExistsException
   \<and> status_code ValidationException = 422
   \<and> status_code AlreadyExistsException = 409"
  by code_simp

section \<open>The invariant\<close>

lemma invariant_iff:
  "invariant db \<longleftrightarrow>
     distinct (map a_id (assignments db))
     \<and> distinct (map p_id (module_progress db))
     \<and> (\<forall>a\<in>set (assignments db). a_id a < assignment_seq db
            \<and> (if started_at a = None
                then status a = NOT_STARTED \<and> completion_percentage a = 0
                     \<and> completed_at a = None
                else started_consistent db a))
     \<and> (\<forall>p\<in>set (module_progress db). p_id p < progress_seq db
            \<and> assignment_id p < assignment_seq db
            \<and> (quiz_passed p = Some True \<longrightarrow> is_completed p)
            \<and> (is_completed p \<longrightarrow>
                  (\<forall>a\<in>set (assignments db). a_id a = assignment_id p \<longrightarrow> started_at a \<noteq> None)))"
  by (simp add: invariant_def list_all_iff)

lemma required_completed_iff:
  "required_completed ms ps \<longleftrightarrow>
     (\<forall>m\<in>set ms. is_required m \<longrightarrow> (\<exists>p\<in>set ps. module_id p = m_id m \<and> is_completed p))"
  by (auto simp: required_completed_def list_all_iff list_ex_iff)

lemma required_completed_mono:
  assumes "\<forall>q\<in>set ps. module_id (u q) = module_id q \<and> (is_completed q \<longrightarrow> is_completed (u q))"
    and "required_completed ms ps"
  shows "required_completed ms (map u ps)"
  using assms unfolding required_completed_iff by fastforce

lemma required_completed_same:
  assumes "\<forall>q\<in>set ps. module_id (u q) = module_id q \<and> is_completed (u q) = is_completed q"
  shows "required_completed ms (map u ps) = required_completed ms ps"
  using assms unfolding required_completed_iff by fastforce

lemma completed_count_same:
  assumes "\<forall>q\<in>set ps. is_completed (u q) = is_completed q"
  shows "length (filter is_completed (map u ps)) = length (filter is_completed ps)"
  using assms by (induction ps) auto

lemma replace_by_key_unique:
  assumes "distinct (map key xs)" and "x \<in> set xs" and "key x' = key x"
  shows "map (\<lambda>y. if key y = key x' then x' else y) xs = map (\<lambda>y. if y = x then x' else y) xs"
proof (rule map_cong [OF refl])
  fix y assume "y \<in> set xs"
  with assms have "key y = key x \<longleftrightarrow> y = x"
    by (auto simp: distinct_map inj_on_def)
  with assms(3) show "(if key y = key x' then x' else y) = (if y = x then x' else y)" by simp
qed

text \<open>The progress rows of an assignment after one row \<open>p\<close> has become \<open>p'\<close>.\<close>

lemma module_progress_of_save_progress:
  assumes "distinct (map p_id (module_progress db))" and "p \<in> set (module_progress db)"
    and "p_id p' = p_id p" and "assignment_id p' = assignment_id p"
  shows "module_progress_of (save_progress p' db) x
           = map (\<lambda>q. if q = p then p' else q) (module_progress_of db x)"
proof -
  let ?u = "\<lambda>q. if q = p then p' else q"
  have "module_progress (save_progress p' db) = map ?u (module_progress db)"
    using replace_by_key_unique [OF assms(1,2,3)] by (simp add: save_progress_def)
  moreover have "(\<lambda>q. assignment_id q = x) \<circ> ?u = (\<lambda>q. assignment_id q = x)"
    using assms(4) by (auto simp: fun_eq_iff)
  ultimately show ?thesis
    by (simp add: module_progress_of_def filter_map)
qed

lemma module_progress_of_save_progress_other:
  assumes "distinct (map p_id (module_progress db))" and "p \<in> set (module_progress db)"
    and "p_id p' = p_id p" and "assignment_id p' = assignment_id p" and "assignment_id p \<noteq> x"
  shows "module_progress_of (save_progress p' db) x = module_progress_of db x"
proof -
  have "map (\<lambda>q. if q = p then p' else q) (module_progress_of db x) = module_progress_of db x"
    using assms(5) by (intro map_idI) (auto simp: module_progress_of_def)
  with module_progress_of_save_progress [OF assms(1-4)] show ?thesis by simp
qed

lemma mark_started_status:
  "status (mark_started a now) = (if started_at a = None then IN_PROGRESS else status a)"
  by (simp add: mark_started_def)

text \<open>The assignment that the aggregator returns after one progress row of the assignment
  has changed, in a session that satisfies the invariant.\<close>

lemma mutation_assignment:
  assumes inv: "invariant db"
    and p: "progress_row db aid mid = Some p"
    and a: "assignment_of db aid = Some a"
    and p': "p_id p' = p_id p" "assignment_id p' = aid" "module_id p' = mid"
            "is_completed p \<longrightarrow> is_completed p'"
    and upd: "update_assignment_progress (save_progress p' db) (mark_started a now) now = Inr a'"
  shows "\<exists>f. flow_of db a = Some f \<and> a_id a' = aid \<and> a_flow_id a' = a_flow_id a
           \<and> a_user_id a' = a_user_id a
           \<and> started_at a' = Some (case started_at a of None \<Rightarrow> now | Some t \<Rightarrow> t)
           \<and> aggregate_percentage (modules f) (module_progress_of (save_progress p' db) aid)
               = Some (completion_percentage a')
           \<and> (status a' = COMPLETED
                \<longleftrightarrow> required_completed (modules f) (module_progress_of (save_progress p' db) aid))
           \<and> (status a' = COMPLETED \<or> status a' = IN_PROGRESS)
           \<and> (status a' = COMPLETED \<longrightarrow> completed_at a' = Some now)
           \<and> (status a' \<noteq> COMPLETED \<longrightarrow> completed_at a' = completed_at a)
           \<and> (status a = COMPLETED \<longrightarrow> status a' = COMPLETED)"
proof -
  from progress_row_Some [OF p] have pin: "p \<in> set (module_progress db)"
    and pid: "assignment_id p = aid" "module_id p = mid" by auto
  from assignment_of_Some [OF a] have ain: "a \<in> set (assignments db)" and aid: "a_id a = aid"
    by auto
  from inv have dist: "distinct (map p_id (module_progress db))"
    by (simp add: invariant_iff)
  let ?db1 = "save_progress p' db"
  let ?u = "\<lambda>q. if q = p then p' else q"
  have rows: "module_progress_of ?db1 aid = map ?u (module_progress_of db aid)"
    using module_progress_of_save_progress [OF dist pin p'(1)] p'(2) pid by simp
  from update_assignment_progress_Inr [OF upd] obtain f where
    f: "flow_of db a = Some f"
    and pct: "aggregate_percentage (modules f) (module_progress_of ?db1 aid)
                = Some (completion_percentage a')"
    and st: "if required_completed (modules f) (module_progress_of ?db1 aid)
             then status a' = COMPLETED \<and> completed_at a' = Some now
             else completed_at a' = completed_at a
                  \<and> (status a' = IN_PROGRESS \<or> status a' = status (mark_started a now))"
    and ids: "a_id a' = aid" "a_flow_id a' = a_flow_id a" "a_user_id a' = a_user_id a"
    and sa: "started_at a' = started_at (mark_started a now)"
    using aid by auto
  let ?R = "required_completed (modules f) (module_progress_of db aid)"
  let ?R' = "required_completed (modules f) (module_progress_of ?db1 aid)"
  have mono: "?R \<Longrightarrow> ?R'"
    unfolding rows using p'(3,4) pid by (intro required_completed_mono) auto
  have old: "started_at a \<noteq> None \<Longrightarrow>
               (status a = COMPLETED \<longleftrightarrow> ?R) \<and> (status a = COMPLETED \<or> status a = IN_PROGRESS)"
    using inv ain f aid by (auto simp: invariant_iff started_consistent_def)
  have new: "started_at a = None \<Longrightarrow> status a = NOT_STARTED"
    using inv ain by (auto simp: invariant_iff)
  have started: "started_at a' = Some (case started_at a of None \<Rightarrow> now | Some t \<Rightarrow> t)"
    using sa by (simp split: option.splits)
  show ?thesis
  proof (cases ?R')
    case True
    with st have "status a' = COMPLETED" "completed_at a' = Some now" by simp_all
    with True f pct ids started show ?thesis by simp
  next
    case False
    with st have c: "completed_at a' = completed_at a"
      and s: "status a' = IN_PROGRESS \<or> status a' = status (mark_started a now)" by simp_all
    have "status a' = IN_PROGRESS \<and> status a \<noteq> COMPLETED"
    proof (cases "started_at a = None")
      case True
      with s new show ?thesis by (simp add: mark_started_status)
    next
      case ns: False
      from False mono have "\<not> ?R" by blast
      with old [OF ns] have "status a = IN_PROGRESS" by blast
      with s ns show ?thesis by (simp add: mark_started_status)
    qed
    with False f pct ids started c show ?thesis by simp
  qed
qed

lemma started_consistent_cong:
  assumes "flows db' = flows db"
    and "module_progress_of db' (a_id a) = module_progress_of db (a_id a)"
  shows "started_consistent db' a = started_consistent db a"
  using assms flow_of_eq [of db' db a a]
  by (auto simp: started_consistent_def split: option.splits)

lemma mutation_invariant:
  assumes inv: "invariant db"
    and p: "progress_row db aid mid = Some p"
    and a: "assignment_of db aid = Some a"
    and p': "p_id p' = p_id p" "assignment_id p' = aid" "module_id p' = mid"
            "is_completed p \<longrightarrow> is_completed p'"
    and qp: "quiz_passed p' = Some True \<longrightarrow> is_completed p'"
    and upd: "update_assignment_progress (save_progress p' db) (mark_started a now) now = Inr a'"
  shows "invariant (save_assignment a' (save_progress p' db))"
proof -
  let ?db1 = "save_progress p' db"
  let ?db' = "save_assignment a' ?db1"
  let ?ua = "\<lambda>b. if a_id b = a_id a' then a' else b"
  let ?up = "\<lambda>q. if p_id q = p_id p' then p' else q"
  from progress_row_Some [OF p] have pin: "p \<in> set (module_progress db)"
    and pid: "assignment_id p = aid" "module_id p = mid" by auto
  from assignment_of_Some [OF a] have ain: "a \<in> set (assignments db)" and aid: "a_id a = aid"
    by auto
  from inv have da: "distinct (map a_id (assignments db))"
    and dp: "distinct (map p_id (module_progress db))"
    and ia: "\<And>b. b \<in> set (assignments db) \<Longrightarrow> a_id b < assignment_seq db
            \<and> (if started_at b = None
                then status b = NOT_STARTED \<and> completion_percentage b = 0
                     \<and> completed_at b = None
                else started_consistent db b)"
    and ip: "\<And>q. q \<in> set (module_progress db) \<Longrightarrow> p_id q < progress_seq db
            \<and> assignment_id q < assignment_seq db
            \<and> (quiz_passed q = Some True \<longrightarrow> is_completed q)
            \<and> (is_completed q \<longrightarrow>
                  (\<forall>b\<in>set (assignments db). a_id b = assignment_id q \<longrightarrow> started_at b \<noteq> None))"
    by (simp_all add: invariant_iff)
  from mutation_assignment [OF inv p a p' upd] obtain f where
    f: "flow_of db a = Some f" and ids: "a_id a' = aid" "a_flow_id a' = a_flow_id a"
    and sa: "started_at a' \<noteq> None"
    and pct: "aggregate_percentage (modules f) (module_progress_of ?db1 aid)
                = Some (completion_percentage a')"
    and st: "status a' = COMPLETED
               \<longleftrightarrow> required_completed (modules f) (module_progress_of ?db1 aid)"
            "status a' = COMPLETED \<or> status a' = IN_PROGRESS"
    by auto
  have as': "assignments ?db' = map ?ua (assignments db)"
    and ps': "module_progress ?db' = map ?up (module_progress db)"
    and seqs: "assignment_seq ?db' = assignment_seq db" "progress_seq ?db' = progress_seq db"
    and fl: "flows ?db' = flows db"
    by (simp_all add: save_assignment_def save_progress_def)
  have upk: "p_id (?up q) = p_id q" for q by simp
  have uak: "a_id (?ua b) = a_id b" for b by simp
  have "map a_id (map ?ua (assignments db)) = map a_id (assignments db)"
    unfolding map_map comp_def uak ..
  with da have 1: "distinct (map a_id (assignments ?db'))" by (simp only: as')
  have "map p_id (map ?up (module_progress db)) = map p_id (module_progress db)"
    unfolding map_map comp_def upk ..
  with dp have 2: "distinct (map p_id (module_progress ?db'))" by (simp only: ps')
  have 3: "a_id b' < assignment_seq ?db'
            \<and> (if started_at b' = None
                then status b' = NOT_STARTED \<and> completion_percentage b' = 0
                     \<and> completed_at b' = None
                else started_consistent ?db' b')"
    if "b' \<in> set (assignments ?db')" for b'
  proof -
    from that obtain b where b: "b \<in> set (assignments db)" "b' = ?ua b"
      unfolding as' by auto
    show ?thesis
    proof (cases "a_id b = aid")
      case True
      with b ids have b': "b' = a'" by simp
      have "flow_of ?db' a' = Some f"
        using flow_of_eq [of ?db' db a' a] fl ids f by simp
      moreover have "module_progress_of ?db' (a_id a') = module_progress_of ?db1 aid"
        using ids by simp
      ultimately have "started_consistent ?db' a'"
        using pct st by (simp add: started_consistent_def)
      with sa ia [OF b(1)] True ids show ?thesis by (auto simp: b' seqs)
    next
      case False
      with b ids have b': "b' = b" by simp
      have "module_progress_of ?db' (a_id b) = module_progress_of db (a_id b)"
        using module_progress_of_save_progress_other [OF dp pin p'(1), of "a_id b"] p'(2) pid False
        by simp
      from started_consistent_cong [OF fl this] ia [OF b(1)] show ?thesis
        by (simp add: b' seqs)
    qed
  qed
  have 4: "p_id q' < progress_seq ?db'
            \<and> assignment_id q' < assignment_seq ?db'
            \<and> (quiz_passed q' = Some True \<longrightarrow> is_completed q')
            \<and> (is_completed q' \<longrightarrow>
                  (\<forall>b\<in>set (assignments ?db'). a_id b = assignment_id q' \<longrightarrow> started_at b \<noteq> None))"
    if "q' \<in> set (module_progress ?db')" for q'
  proof -
    from that obtain q where q: "q \<in> set (module_progress db)" "q' = ?up q"
      unfolding ps' by auto
    have same: "p_id q = p_id p \<Longrightarrow> q = p"
      using dp q(1) pin by (auto simp: distinct_map inj_on_def)
    have k: "p_id q' = p_id q" "assignment_id q' = assignment_id q"
      using q(2) p' pid same by (auto split: if_splits)
    have c: "quiz_passed q' = Some True \<longrightarrow> is_completed q'"
      using q(2) qp ip [OF q(1)] by (auto split: if_splits)
    have s: "started_at b' \<noteq> None"
      if "is_completed q'" "b' \<in> set (assignments ?db')" "a_id b' = assignment_id q'" for b'
    proof -
      from that(2) obtain b where b: "b \<in> set (assignments db)" "b' = ?ua b"
        unfolding as' by auto
      show ?thesis
      proof (cases "a_id b = aid")
        case True
        with b ids sa show ?thesis by simp
      next
        case False
        with b ids have b': "b' = b" by simp
        with that(3) k False have "assignment_id q \<noteq> aid" by simp
        with q(2) p' pid same have "q' = q" by (auto split: if_splits)
        with that(1,3) b' ip [OF q(1)] b(1) show ?thesis by auto
      qed
    qed
    from ip [OF q(1)] k c s show ?thesis by (simp add: seqs)
  qed
  from 1 2 3 4 show ?thesis unfolding invariant_iff by blast
qed

lemma new_progress_ids: "map p_id (new_progress pk aid ms) = [pk..<pk + length ms]"
  by (induction ms arbitrary: pk) (simp_all add: upt_rec)

lemma new_progress_rows:
  "q \<in> set (new_progress pk aid ms) \<Longrightarrow>
     assignment_id q = aid \<and> \<not> is_completed q \<and> quiz_passed q = None"
  by (induction ms arbitrary: pk) auto

lemma new_progress_length [simp]: "length (new_progress pk aid ms) = length ms"
  by (induction ms arbitrary: pk) simp_all

lemma assign_flow_invariant:
  assumes inv: "invariant db"
    and ok: "assign_flow db tid data by now = Inr (a, db')"
  shows "invariant db'"
proof -
  from assign_flow_Inr [OF ok] obtain f where
    "get_flow db (c_flow_id data) tid = Inr f"
    "\<not> list_ex (\<lambda>a. a_flow_id a = c_flow_id data \<and> a_user_id a = c_user_id data
                                \<and> status a \<noteq> COMPLETED) (assignments db)"
    and a: "a = \<lparr>a_id = assignment_seq db, a_tenant_id = tid,
                     a_flow_id = c_flow_id data, a_user_id = c_user_id data,
                     status = NOT_STARTED, assigned_at = now, started_at = None,
                     completed_at = None, due_date = c_due_date data,
                     completion_percentage = 0, assigned_by = Some by\<rparr>"
    and db': "db' = db\<lparr>assignments := assignments db @ [a],
                       module_progress := module_progress db
                          @ new_progress (progress_seq db) (a_id a) (modules f),
                       assignment_seq := Suc (assignment_seq db),
                       progress_seq := progress_seq db + length (modules f)\<rparr>"
    by (elim exE conjE) (rule that)
  let ?new = "new_progress (progress_seq db) (a_id a) (modules f)"
  from inv have da: "distinct (map a_id (assignments db))"
    and dp: "distinct (map p_id (module_progress db))"
    and ia: "\<And>b. b \<in> set (assignments db) \<Longrightarrow> a_id b < assignment_seq db
            \<and> (if started_at b = None
                then status b = NOT_STARTED \<and> completion_percentage b = 0
                     \<and> completed_at b = None
                else started_consistent db b)"
    and ip: "\<And>q. q \<in> set (module_progress db) \<Longrightarrow> p_id q < progress_seq db
            \<and> assignment_id q < assignment_seq db
            \<and> (quiz_passed q = Some True \<longrightarrow> is_completed q)
            \<and> (is_completed q \<longrightarrow>
                  (\<forall>b\<in>set (assignments db). a_id b = assignment_id q \<longrightarrow> started_at b \<noteq> None))"
    by (simp_all add: invariant_iff)
  have ialt: "a_id b < assignment_seq db" if "b \<in> set (assignments db)" for b
    using ia [OF that] by simp
  have iplt: "p_id q < progress_seq db" if "q \<in> set (module_progress db)" for q
    using ip [OF that] by simp
  have aseq: "a_id a = assignment_seq db" "started_at a = None" "status a = NOT_STARTED"
    "completion_percentage a = 0" "completed_at a = None"
    by (simp_all add: a)
  have as': "assignments db' = assignments db @ [a]"
    and ps': "module_progress db' = module_progress db @ ?new"
    and seqs: "assignment_seq db' = Suc (assignment_seq db)"
              "progress_seq db' = progress_seq db + length (modules f)"
    and fl: "flows db' = flows db"
    by (simp_all add: db')
  have "a_id a \<notin> a_id ` set (assignments db)"
    using ialt aseq(1) by fastforce
  with da have 1: "distinct (map a_id (assignments db'))" by (simp add: as')
  have "set (map p_id ?new) \<inter> set (map p_id (module_progress db)) = {}"
    unfolding new_progress_ids using iplt by fastforce
  moreover have "distinct (map p_id ?new)" unfolding new_progress_ids by simp
  ultimately have 2: "distinct (map p_id (module_progress db'))"
    using dp by (auto simp: ps')
  have 3: "a_id b < assignment_seq db'
            \<and> (if started_at b = None
                then status b = NOT_STARTED \<and> completion_percentage b = 0
                     \<and> completed_at b = None
                else started_consistent db' b)"
    if "b \<in> set (assignments db')" for b
  proof (cases "b = a")
    case True
    with aseq show ?thesis by (simp add: seqs)
  next
    case False
    with that have b: "b \<in> set (assignments db)" by (simp add: as')
    with ialt have "a_id b \<noteq> a_id a" using aseq(1) by fastforce
    then have "filter (\<lambda>q. assignment_id q = a_id b) ?new = []"
      using new_progress_rows [of _ "progress_seq db" "a_id a" "modules f"]
      by (auto simp: filter_empty_conv)
    then have "module_progress_of db' (a_id b) = module_progress_of db (a_id b)"
      by (simp add: module_progress_of_def ps')
    from started_consistent_cong [OF fl this] ia [OF b] show ?thesis
      by (auto simp: seqs)
  qed
  have 4: "p_id q < progress_seq db'
            \<and> assignment_id q < assignment_seq db'
            \<and> (quiz_passed q = Some True \<longrightarrow> is_completed q)
            \<and> (is_completed q \<longrightarrow>
                  (\<forall>b\<in>set (assignments db'). a_id b = assignment_id q \<longrightarrow> started_at b \<noteq> None))"
    if "q \<in> set (module_progress db')" for q
  proof (cases "q \<in> set (module_progress db)")
    case True
    from ip [OF True] aseq(1) show ?thesis by (auto simp: seqs as')
  next
    case False
    with that have n: "q \<in> set ?new" by (simp add: ps')
    then have "p_id q \<in> set (map p_id ?new)" by auto
    then have "p_id q < progress_seq db + length (modules f)"
      unfolding new_progress_ids by simp
    with new_progress_rows [OF n] aseq(1) show ?thesis by (simp add: seqs)
  qed
  from 1 2 3 4 show ?thesis unfolding invariant_iff by blast
qed

text \<open>Every session that the engine reaches from a catalogue satisfies the invariant.\<close>

lemma fresh_invariant: "invariant (fresh fs)"
  by (simp add: invariant_def fresh_def)

lemma handle_invariant:
  assumes "invariant db"
  shows "invariant (handle db r)"
proof (cases r)
  case (Assign tid data ab now)
  show ?thesis
  proof (cases "assign_flow db tid data ab now")
    case (Inl e)
    with Assign assms show ?thesis by simp
  next
    case (Inr x)
    then obtain a db' where "assign_flow db tid data ab now = Inr (a, db')" by (cases x) simp
    with Assign assign_flow_invariant [OF assms this] show ?thesis by simp
  qed
next
  case (Complete aid mid uid data now)
  show ?thesis
  proof (cases "complete_module db aid mid uid data now")
    case (Inl e)
    with Complete assms show ?thesis by simp
  next
    case (Inr x)
    then obtain p' db' where ok: "complete_module db aid mid uid data now = Inr (p', db')"
      by (cases x) simp
    from mutation_Inr [OF disjI1 [OF ok]] obtain p a a' where
      "progress_row db aid mid = Some p" "assignment_of db aid = Some a"
      "p_id p' = p_id p" "assignment_id p' = aid" "module_id p' = mid"
      "is_completed p \<longrightarrow> is_completed p'" "quiz_passed p' = Some True \<longrightarrow> is_completed p'"
      "update_assignment_progress (save_progress p' db) (mark_started a now) now = Inr a'"
      "db' = save_assignment a' (save_progress p' db)"
      by blast
    with mutation_invariant [OF assms, of aid mid p a p' now a'] have "invariant db'" by blast
    with Complete ok show ?thesis by simp
  qed
next
  case (Submit aid mid uid data now)
  show ?thesis
  proof (cases "submit_quiz db aid mid uid data now")
    case (Inl e)
    with Submit assms show ?thesis by simp
  next
    case (Inr x)
    then obtain p' db' where ok: "submit_quiz db aid mid uid data now = Inr (p', db')"
      by (cases x) simp
    from mutation_Inr [OF disjI2 [OF ok]] obtain p a a' where
      "progress_row db aid mid = Some p" "assignment_of db aid = Some a"
      "p_id p' = p_id p" "assignment_id p' = aid" "module_id p' = mid"
      "is_completed p \<longrightarrow> is_completed p'" "quiz_passed p' = Some True \<longrightarrow> is_completed p'"
      "update_assignment_progress (save_progress p' db) (mark_started a now) now = Inr a'"
      "db' = save_assignment a' (save_progress p' db)"
      by blast
    with mutation_invariant [OF assms, of aid mid p a p' now a'] have "invariant db'" by blast
    with Submit ok show ?thesis by simp
  qed
qed

lemma run_invariant: "invariant db \<Longrightarrow> invariant (run db rs)"
  unfolding run_def by (induction rs arbitrary: db) (simp_all add: handle_invariant)

lemma run_append: "run db (rs @ rs') = run (run db rs) rs'"
  by (simp add: run_def)

lemma reachable_invariant: "invariant (run (fresh fs) rs)"
  by (rule run_invariant [OF fresh_invariant])





text \<open>One request: a progress row keeps its identity and its completion.\<close>

lemma handle_progress:
  assumes inv: "invariant db" and p: "p \<in> set (module_progress db)"
  shows "\<exists>p'\<in>set (module_progress (handle db r)). p_id p' = p_id p
           \<and> assignment_id p' = assignment_id p \<and> module_id p' = module_id p
           \<and> (is_completed p \<longrightarrow> is_completed p')"
proof -
  from inv have dp: "distinct (map p_id (module_progress db))" by (simp add: invariant_iff)
  have mut: "\<exists>q'\<in>set (module_progress db'). p_id q' = p_id p
           \<and> assignment_id q' = assignment_id p \<and> module_id q' = module_id p
           \<and> (is_completed p \<longrightarrow> is_completed q')"
    if ok: "complete_module db aid mid uid data now = Inr (p', db')
            \<or> submit_quiz db aid mid uid qdata now = Inr (p', db')"
    for aid mid uid data qdata now p' db'
  proof -
    from mutation_Inr [OF ok] obtain q c c' where
      m: "progress_row db aid mid = Some q"
      "p_id p' = p_id q" "assignment_id p' = aid" "module_id p' = mid"
      "is_completed q \<longrightarrow> is_completed p'"
      "db' = save_assignment c' (save_progress p' db)"
      by blast
    from progress_row_Some [OF m(1)] have q: "q \<in> set (module_progress db)"
      "assignment_id q = aid" "module_id q = mid" by auto
    let ?up = "\<lambda>x. if p_id x = p_id p' then p' else x"
    have rows: "module_progress db' = map ?up (module_progress db)"
      by (simp add: m(6) save_assignment_def save_progress_def)
    have "p_id p = p_id q \<Longrightarrow> p = q"
      using dp p q(1) by (auto simp: distinct_map inj_on_def)
    then have "p_id (?up p) = p_id p \<and> assignment_id (?up p) = assignment_id p
               \<and> module_id (?up p) = module_id p \<and> (is_completed p \<longrightarrow> is_completed (?up p))"
      using m(2-5) q(2,3) by auto
    moreover have "?up p \<in> ?up ` set (module_progress db)"
      using p by (rule imageI)
    then have "?up p \<in> set (module_progress db')"
      by (simp only: rows set_map)
    ultimately show ?thesis by blast
  qed
  show ?thesis
  proof (cases r)
    case (Assign tid data ab now)
    show ?thesis
    proof (cases "assign_flow db tid data ab now")
      case (Inl e)
      with Assign p show ?thesis by auto
    next
      case (Inr x)
      then obtain n db' where ok: "assign_flow db tid data ab now = Inr (n, db')"
        by (cases x) simp
      from assign_flow_Inr [OF ok] p have "p \<in> set (module_progress db')" by auto
      with Assign ok show ?thesis by auto
    qed
  next
    case (Complete aid mid uid data now)
    show ?thesis
    proof (cases "complete_module db aid mid uid data now")
      case (Inl e)
      with Complete p show ?thesis by auto
    next
      case (Inr x)
      then obtain p' db' where ok: "complete_module db aid mid uid data now = Inr (p', db')"
        by (cases x) simp
      from mut [OF disjI1 [OF ok]] Complete ok show ?thesis by simp
    qed
  next
    case (Submit aid mid uid data now)
    show ?thesis
    proof (cases "submit_quiz db aid mid uid data now")
      case (Inl e)
      with Submit p show ?thesis by auto
    next
      case (Inr x)
      then obtain p' db' where ok: "submit_quiz db aid mid uid data now = Inr (p', db')"
        by (cases x) simp
      from mut [OF disjI2 [OF ok]] Submit ok show ?thesis by simp
    qed
  qed
qed

lemma run_progress:
  assumes "invariant db" and "p \<in> set (module_progress db)"
  shows "\<exists>p'\<in>set (module_progress (run db rs)). p_id p' = p_id p
           \<and> assignment_id p' = assignment_id p \<and> module_id p' = module_id p
           \<and> (is_completed p \<longrightarrow> is_completed p')"
  using assms
proof (induction rs arbitrary: db p)
  case Nil
  then show ?case by (auto simp: run_def)
next
  case (Cons r rs)
  from handle_progress [OF Cons.prems, of r] obtain p1 where
    p1: "p1 \<in> set (module_progress (handle db r))" "p_id p1 = p_id p"
        "assignment_id p1 = assignment_id p" "module_id p1 = module_id p"
        "is_completed p \<longrightarrow> is_completed p1"
    by blast
  from Cons.IH [OF handle_invariant [OF Cons.prems(1)] p1(1)] obtain p' where
    "p' \<in> set (module_progress (run (handle db r) rs))" "p_id p' = p_id p1"
        "assignment_id p' = assignment_id p1" "module_id p' = module_id p1"
        "is_completed p1 \<longrightarrow> is_completed p'"
    by blast
  with p1 show ?case by (auto simp: run_def)
qed

section \<open>Starting an assignment\<close>





section \<open>Completing an assignment\<close>




section \<open>Changes that keep the completion of a row\<close>

text \<open>A change of a progress row that keeps its completion keeps the status and the
  percentage of a started assignment.\<close>

lemma mutation_same_completion:
  assumes inv: "invariant db"
    and p: "progress_row db aid mid = Some p"
    and a: "assignment_of db aid = Some a"
    and p': "p_id p' = p_id p" "assignment_id p' = aid" "module_id p' = mid"
            "is_completed p' = is_completed p"
    and st: "started_at a \<noteq> None"
    and upd: "update_assignment_progress (save_progress p' db) (mark_started a now) now = Inr a'"
  shows "status a' = status a \<and> completion_percentage a' = completion_percentage a"
proof -
  from progress_row_Some [OF p] have pin: "p \<in> set (module_progress db)"
    and pid: "assignment_id p = aid" "module_id p = mid" by auto
  from assignment_of_Some [OF a] have ain: "a \<in> set (assignments db)" and aid: "a_id a = aid"
    by auto
  from inv have dist: "distinct (map p_id (module_progress db))"
    by (simp add: invariant_iff)
  let ?db1 = "save_progress p' db"
  let ?u = "\<lambda>q. if q = p then p' else q"
  have rows: "module_progress_of ?db1 aid = map ?u (module_progress_of db aid)"
    using module_progress_of_save_progress [OF dist pin p'(1)] p'(2) pid by simp
  from p'(4) have mono: "is_completed p \<longrightarrow> is_completed p'" by simp
  from mutation_assignment [OF inv p a p'(1-3) mono upd] obtain f where
    f: "flow_of db a = Some f"
    and new: "aggregate_percentage (modules f) (module_progress_of ?db1 aid)
                = Some (completion_percentage a')"
      "status a' = COMPLETED
         \<longleftrightarrow> required_completed (modules f) (module_progress_of ?db1 aid)"
      "status a' = COMPLETED \<or> status a' = IN_PROGRESS"
    by auto
  from inv ain st f aid have old:
      "aggregate_percentage (modules f) (module_progress_of db aid)
         = Some (completion_percentage a)"
      "status a = COMPLETED \<longleftrightarrow> required_completed (modules f) (module_progress_of db aid)"
      "status a = COMPLETED \<or> status a = IN_PROGRESS"
    by (auto simp: invariant_iff started_consistent_def)
  have same: "\<forall>q\<in>set (module_progress_of db aid).
                module_id (?u q) = module_id q \<and> is_completed (?u q) = is_completed q"
    using p' pid by auto
  have "required_completed (modules f) (module_progress_of ?db1 aid)
          = required_completed (modules f) (module_progress_of db aid)"
    unfolding rows by (rule required_completed_same [OF same])
  moreover have "length (filter is_completed (module_progress_of ?db1 aid))
                   = length (filter is_completed (module_progress_of db aid))"
    unfolding rows using same by (intro completed_count_same) simp
  then have "aggregate_percentage (modules f) (module_progress_of ?db1 aid)
               = aggregate_percentage (modules f) (module_progress_of db aid)"
    by (simp add: aggregate_percentage_def)
  ultimately show ?thesis using old new by auto
qed

section \<open>Stored rows and referential integrity\<close>

lemma int_ratio_times_100_zero: "b \<noteq> 0 \<Longrightarrow> int_ratio_times_100 0 b = Some 0"
  by (simp add: int_ratio_times_100_def truediv_def nearest_double_def fmul100_def scale2_def
      int_of_double_def)

lemma find_replace_first:
  assumes "find P xs = Some x" and "key x' = key x" and "P x'"
  shows "find P (map (\<lambda>y. if key y = key x' then x' else y) xs) = Some x'"
  using assms by (induction xs) (auto split: if_splits)

text \<open>The row that an operation has changed is the row that the query finds afterwards.\<close>

lemma progress_row_saved:
  assumes "progress_row db aid mid = Some p"
    and "p_id p' = p_id p" and "assignment_id p' = aid" and "module_id p' = mid"
  shows "progress_row (save_assignment a' (save_progress p' db)) aid mid = Some p'"
proof -
  have "module_progress (save_assignment a' (save_progress p' db))
          = map (\<lambda>q. if p_id q = p_id p' then p' else q) (module_progress db)"
    by (simp add: save_assignment_def save_progress_def)
  with find_replace_first [of "\<lambda>q. assignment_id q = aid \<and> module_id q = mid"
      "module_progress db" p p_id p'] assms
  show ?thesis by (simp add: progress_row_def)
qed

text \<open>Every session that the engine reaches keeps the foreign keys intact.\<close>

lemma linked_iff:
  "linked db \<longleftrightarrow>
     (\<forall>a\<in>set (assignments db). flow_of db a \<noteq> None)
     \<and> (\<forall>p\<in>set (module_progress db). assignment_of db (assignment_id p) \<noteq> None
                     \<and> module_of db (module_id p) \<noteq> None)"
  by (simp add: linked_def list_all_iff)

lemma module_of_save [simp]:
  "module_of (save_assignment a db) mid = module_of db mid"
  "module_of (save_progress p db) mid = module_of db mid"
  by (simp_all add: module_of_def)

lemma assignment_of_exists:
  "assignment_of db x = None \<longleftrightarrow> x \<notin> a_id ` set (assignments db)"
  by (auto simp: assignment_of_def find_None_iff)

lemma fresh_linked: "linked (fresh fs)"
  by (simp add: linked_def fresh_def)

lemma mutation_linked:
  assumes l: "linked db"
    and p: "progress_row db aid mid = Some p"
    and a: "assignment_of db aid = Some a"
    and p': "assignment_id p' = aid" "module_id p' = mid"
    and upd: "update_assignment_progress (save_progress p' db) (mark_started a now) now = Inr a'"
  shows "linked (save_assignment a' (save_progress p' db))"
proof -
  let ?db' = "save_assignment a' (save_progress p' db)"
  let ?ua = "\<lambda>b. if a_id b = a_id a' then a' else b"
  let ?up = "\<lambda>q. if p_id q = p_id p' then p' else q"
  from progress_row_Some [OF p] have pin: "p \<in> set (module_progress db)"
    and pid: "assignment_id p = aid" "module_id p = mid" by auto
  from update_assignment_progress_Inr [OF upd] obtain f where
    f: "flow_of db a = Some f" and ids: "a_id a' = a_id a" "a_flow_id a' = a_flow_id a"
    by auto
  have as': "assignments ?db' = map ?ua (assignments db)"
    and ps': "module_progress ?db' = map ?up (module_progress db)"
    and fl: "flows ?db' = flows db"
    by (simp_all add: save_assignment_def save_progress_def)
  have keys: "a_id ` set (assignments ?db') = a_id ` set (assignments db)"
  proof -
    have uak: "a_id (?ua b) = a_id b" for b by simp
    have "map a_id (map ?ua (assignments db)) = map a_id (assignments db)"
      unfolding map_map comp_def uak ..
    then show ?thesis unfolding as' by (metis set_map)
  qed
  have 1: "flow_of ?db' b \<noteq> None" if "b \<in> set (assignments ?db')" for b
  proof -
    from that obtain c where c: "c \<in> set (assignments db)" "b = ?ua c"
      unfolding as' by auto
    show ?thesis
    proof (cases "a_id c = a_id a'")
      case True
      with c have "b = a'" by simp
      with flow_of_eq [OF fl ids(2)] f show ?thesis by simp
    next
      case False
      with c have "b = c" by simp
      with l c(1) flow_of_eq [OF fl refl, of c] show ?thesis by (simp add: linked_iff)
    qed
  qed
  have 2: "assignment_of ?db' (assignment_id q) \<noteq> None \<and> module_of ?db' (module_id q) \<noteq> None"
    if "q \<in> set (module_progress ?db')" for q
  proof -
    from that obtain r where r: "r \<in> set (module_progress db)" "q = ?up r"
      unfolding ps' by auto
    from l pin pid have lp: "assignment_of db aid \<noteq> None" "module_of db mid \<noteq> None"
      by (auto simp: linked_iff)
    from l r(1) have lr: "assignment_of db (assignment_id r) \<noteq> None"
      "module_of db (module_id r) \<noteq> None"
      by (auto simp: linked_iff)
    from r(2) p' lp lr have "assignment_of db (assignment_id q) \<noteq> None"
      "module_of db (module_id q) \<noteq> None"
      by (auto split: if_splits)
    then show ?thesis
      using keys by (simp add: assignment_of_exists)
  qed
  from 1 2 show ?thesis unfolding linked_iff by blast
qed

lemma module_of_member:
  assumes "f \<in> set (flows db)" and "m \<in> set (modules f)"
  shows "module_of db (m_id m) \<noteq> None"
  using assms by (auto simp: module_of_def find_None_iff)

lemma new_progress_modules:
  "q \<in> set (new_progress pk aid ms) \<Longrightarrow> \<exists>m\<in>set ms. module_id q = m_id m"
  by (induction ms arbitrary: pk) auto

lemma assign_flow_linked:
  assumes l: "linked db"
    and ok: "assign_flow db tid data ab now = Inr (a, db')"
  shows "linked db'"
proof -
  from assign_flow_Inr [OF ok] obtain f where
    g: "get_flow db (c_flow_id data) tid = Inr f"
    and "\<not> list_ex (\<lambda>a. a_flow_id a = c_flow_id data \<and> a_user_id a = c_user_id data
                                \<and> status a \<noteq> COMPLETED) (assignments db)"
    and a: "a = \<lparr>a_id = assignment_seq db, a_tenant_id = tid,
                     a_flow_id = c_flow_id data, a_user_id = c_user_id data,
                     status = NOT_STARTED, assigned_at = now, started_at = None,
                     completed_at = None, due_date = c_due_date data,
                     completion_percentage = 0, assigned_by = Some ab\<rparr>"
    and db': "db' = db\<lparr>assignments := assignments db @ [a],
                       module_progress := module_progress db
                          @ new_progress (progress_seq db) (a_id a) (modules f),
                       assignment_seq := Suc (assignment_seq db),
                       progress_seq := progress_seq db + length (modules f)\<rparr>"
    by (elim exE conjE) (rule that)
  let ?new = "new_progress (progress_seq db) (a_id a) (modules f)"
  from get_flow_Inr [OF g] have fin: "f \<in> set (flows db)" and fid: "f_id f = c_flow_id data"
    by auto
  have as': "assignments db' = assignments db @ [a]"
    and ps': "module_progress db' = module_progress db @ ?new"
    and fl: "flows db' = flows db"
    by (simp_all add: db')
  have afl: "a_flow_id a = c_flow_id data" by (simp add: a)
  have 1: "flow_of db' b \<noteq> None" if "b \<in> set (assignments db')" for b
  proof (cases "b = a")
    case True
    with fin fid afl show ?thesis by (auto simp: flow_of_def fl find_None_iff)
  next
    case False
    with that have "b \<in> set (assignments db)" by (simp add: as')
    with l flow_of_eq [OF fl refl, of b] show ?thesis by (simp add: linked_iff)
  qed
  have 2: "assignment_of db' (assignment_id q) \<noteq> None \<and> module_of db' (module_id q) \<noteq> None"
    if "q \<in> set (module_progress db')" for q
  proof (cases "q \<in> set (module_progress db)")
    case True
    with l have "assignment_of db (assignment_id q) \<noteq> None" "module_of db (module_id q) \<noteq> None"
      by (auto simp: linked_iff)
    then have "assignment_id q \<in> a_id ` set (assignments db)"
      and m: "module_of db' (module_id q) \<noteq> None"
      by (simp_all add: assignment_of_exists module_of_def fl)
    then have "assignment_of db' (assignment_id q) \<noteq> None"
      by (simp add: assignment_of_exists as')
    with m show ?thesis by simp
  next
    case False
    with that have n: "q \<in> set ?new" by (simp add: ps')
    from new_progress_rows [OF n] have "assignment_id q = a_id a" by simp
    then have "assignment_of db' (assignment_id q) \<noteq> None"
      by (simp add: assignment_of_exists as')
    moreover from new_progress_modules [OF n] obtain m where "m \<in> set (modules f)"
      "module_id q = m_id m" by blast
    with module_of_member [OF fin] have "module_of db' (module_id q) \<noteq> None"
      by (simp add: module_of_def fl)
    ultimately show ?thesis by simp
  qed
  from 1 2 show ?thesis unfolding linked_iff by blast
qed

lemma handle_linked:
  assumes "linked db"
  shows "linked (handle db r)"
proof (cases r)
  case (Assign tid data ab now)
  show ?thesis
  proof (cases "assign_flow db tid data ab now")
    case (Inl e)
    with Assign assms show ?thesis by simp
  next
    case (Inr x)
    then obtain a db' where "assign_flow db tid data ab now = Inr (a, db')" by (cases x) simp
    with Assign assign_flow_linked [OF assms this] show ?thesis by simp
  qed
next
  case (Complete aid mid uid data now)
  show ?thesis
  proof (cases "complete_module db aid mid uid data now")
    case (Inl e)
    with Complete assms show ?thesis by simp
  next
    case (Inr x)
    then obtain p' db' where ok: "complete_module db aid mid uid data now = Inr (p', db')"
      by (cases x) simp
    from mutation_Inr [OF disjI1 [OF ok]] obtain p a a' where
      "progress_row db aid mid = Some p" "assignment_of db aid = Some a"
      "assignment_id p' = aid" "module_id p' = mid"
      "update_assignment_progress (save_progress p' db) (mark_started a now) now = Inr a'"
      "db' = save_assignment a' (save_progress p' db)"
      by blast
    with mutation_linked [OF assms, of aid mid p a p' now a'] have "linked db'" by blast
    with Complete ok show ?thesis by simp
  qed
next
  case (Submit aid mid uid data now)
  show ?thesis
  proof (cases "submit_quiz db aid mid uid data now")
    case (Inl e)
    with Submit assms show ?thesis by simp
  next
    case (Inr x)
    then obtain p' db' where ok: "submit_quiz db aid mid uid data now = Inr (p', db')"
      by (cases x) simp
    from mutation_Inr [OF disjI2 [OF ok]] obtain p a a' where
      "progress_row db aid mid = Some p" "assignment_of db aid = Some a"
      "assignment_id p' = aid" "module_id p' = mid"
      "update_assignment_progress (save_progress p' db) (mark_started a now) now = Inr a'"
      "db' = save_assignment a' (save_progress p' db)"
      by blast
    with mutation_linked [OF assms, of aid mid p a p' now a'] have "linked db'" by blast
    with Submit ok show ?thesis by simp
  qed
qed

lemma run_linked: "linked db \<Longrightarrow> linked (run db rs)"
  unfolding run_def by (induction rs arbitrary: db) (simp_all add: handle_linked)

lemma reachable_linked: "linked (run (fresh fs) rs)"
  by (rule run_linked [OF fresh_linked])

section \<open>Time spent on a module\<close>

text \<open>
  C9 (as amended). The stored \<open>time_spent_minutes\<close> is not accumulated: after a successful
  \<open>complete_module\<close> or \<open>submit_quiz\<close> call that carries a non-zero time, the progress
  row stored in the session holds that value in place of the previous one, and after a
  call that carries no time or the time 0 it holds the previous value. The request schema
  puts no lower bound on the value, so the stored value is the last non-zero value
  submitted, whatever its sign.
\<close>

theorem time_spent_replaced:
  assumes "progress_row db aid mid = Some p"
  shows "(complete_module db aid mid uid data now = Inr (p', db') \<longrightarrow>
            progress_row db' aid mid = Some p'
            \<and> time_spent_minutes p' =
                (case r_time_spent_minutes data of None \<Rightarrow> time_spent_minutes p
                 | Some v \<Rightarrow> if v = 0 then time_spent_minutes p else v))
       \<and> (submit_quiz db aid mid uid qdata now = Inr (p', db') \<longrightarrow>
            progress_row db' aid mid = Some p'
            \<and> time_spent_minutes p' =
                (case q_time_spent_minutes qdata of None \<Rightarrow> time_spent_minutes p
                 | Some v \<Rightarrow> if v = 0 then time_spent_minutes p else v))"
proof (intro conjI impI)
  assume ok: "complete_module db aid mid uid data now = Inr (p', db')"
  from mutation_Inr [OF disjI1 [OF ok]] assms obtain a' where
    "p_id p' = p_id p" "assignment_id p' = aid" "module_id p' = mid"
    "db' = save_assignment a' (save_progress p' db)"
    by auto
  with progress_row_saved [OF assms, of p' a'] show "progress_row db' aid mid = Some p'"
    by simp
  from complete_module_Inr [OF ok] assms show "time_spent_minutes p' =
              (case r_time_spent_minutes data of None \<Rightarrow> time_spent_minutes p
               | Some v \<Rightarrow> if v = 0 then time_spent_minutes p else v)"
    by (auto split: option.splits)
next
  assume ok: "submit_quiz db aid mid uid qdata now = Inr (p', db')"
  from mutation_Inr [OF disjI2 [OF ok]] assms obtain a' where
    "p_id p' = p_id p" "assignment_id p' = aid" "module_id p' = mid"
    "db' = save_assignment a' (save_progress p' db)"
    by auto
  with progress_row_saved [OF assms, of p' a'] show "progress_row db' aid mid = Some p'"
    by simp
  from submit_quiz_Inr [OF ok] assms show "time_spent_minutes p' =
              (case q_time_spent_minutes qdata of None \<Rightarrow> time_spent_minutes p
               | Some v \<Rightarrow> if v = 0 then time_spent_minutes p else v)"
    by (auto split: option.splits)
qed

text \<open>
  Ten minutes are stored; after a completion carrying five minutes the stored row holds
  five. After a quiz submission carrying four minutes the stored row holds four.
\<close>

theorem time_spent_replaced_witness:
  "map_option time_spent_minutes (progress_row ten_minutes 1 10) = Some 10
   \<and> \<not> isl (complete_module ten_minutes 1 10 7 (timed 5) 7)
   \<and> map_option time_spent_minutes
        (progress_row (snd (projr (complete_module ten_minutes 1 10 7 (timed 5) 7))) 1 10)
       = Some 5
   \<and> \<not> isl (submit_quiz quiz_passed_once 1 30 7 (two_right\<lparr>q_time_spent_minutes := Some 4\<rparr>) 8)
   \<and> map_option time_spent_minutes
        (progress_row (snd (projr (submit_quiz quiz_passed_once 1 30 7 (two_right\<lparr>q_time_spent_minutes := Some 4\<rparr>) 8))) 1 30)
       = Some 4"
proof -
  let ?r = "complete_module ten_minutes 1 10 7 (timed 5) 7"
  let ?s = "submit_quiz quiz_passed_once 1 30 7 (two_right\<lparr>q_time_spent_minutes := Some 4\<rparr>) 8"
  let ?p = "the (progress_row ten_minutes 1 10)"
  let ?q = "the (progress_row quiz_passed_once 1 30)"
  have h1: "progress_row ten_minutes 1 10 = Some ?p" by code_simp
  have h2: "?r = Inr (fst (projr ?r), snd (projr ?r))" by code_simp
  have h3: "time_spent_minutes ?p = 10" by code_simp
  have g1: "progress_row quiz_passed_once 1 30 = Some ?q" by code_simp
  have g2: "?s = Inr (fst (projr ?s), snd (projr ?s))" by code_simp
  have g3: "time_spent_minutes ?q = 0" by code_simp
  from time_spent_replaced [OF h1, THEN conjunct1, THEN mp, OF h2]
  have a1: "map_option time_spent_minutes (progress_row (snd (projr ?r)) 1 10) = Some 5"
    by (simp add: timed_def)
  from time_spent_replaced [OF g1, THEN conjunct2, THEN mp, OF g2] g3
  have a2: "map_option time_spent_minutes (progress_row (snd (projr ?s)) 1 30) = Some 4"
    by (simp add: two_right_def)
  have i1: "\<not> isl ?r" using h2 by (metis sum.disc(2))
  have i2: "\<not> isl ?s" using g2 by (metis sum.disc(2))
  have b0: "map_option time_spent_minutes (progress_row ten_minutes 1 10) = Some 10"
    using h1 h3 by (metis option.simps(9))
  from b0 i1 a1 i2 a2 show ?thesis by (intro conjI)
qed

text \<open>
  The claim as stated fails: with ten minutes stored, after a call carrying five minutes
  the session stores five (not fifteen), and after a call carrying \<open>-3\<close> it stores a
  negative value.
\<close>

theorem time_spent_counterexample:
  "map_option time_spent_minutes (progress_row ten_minutes 1 10) = Some 10
   \<and> map_option time_spent_minutes
        (progress_row (snd (projr (complete_module ten_minutes 1 10 7 (timed 5) 7))) 1 10)
       = Some 5
   \<and> map_option time_spent_minutes
        (progress_row (snd (projr (complete_module ten_minutes 1 10 7 (timed (- 3)) 7))) 1 10)
       = Some (- 3)"
  by code_simp

section \<open>Sequencing\<close>





section \<open>Status and required modules\<close>

text \<open>
  C5 (as amended). In every session that the engine's operations reach from a catalogue,
  every assignment whose flow has a required module, and every assignment that has been
  started, has status \<open>COMPLETED\<close> if and only if every required module of its flow has a
  completed progress row; optional modules do not enter the condition, and they count
  toward the percentage, which is taken over all modules. The one exception is an
  assignment that has not been started and whose flow has no required module: it is
  \<open>NOT_STARTED\<close>, although the condition holds.
\<close>

theorem completed_iff_required:
  assumes "db = run (fresh fs) rs" and "a \<in> set (assignments db)"
  shows "\<exists>f. flow_of db a = Some f
          \<and> (started_at a \<noteq> None \<or> list_ex is_required (modules f)
              \<longrightarrow> (status a = COMPLETED \<longleftrightarrow>
                    (\<forall>m\<in>set (modules f). is_required m \<longrightarrow>
                       (\<exists>p\<in>set (module_progress_of db (a_id a)).
                           module_id p = m_id m \<and> is_completed p))))
          \<and> (started_at a = None \<and> \<not> list_ex is_required (modules f)
              \<longrightarrow> status a = NOT_STARTED)
          \<and> (started_at a \<noteq> None \<or> modules f \<noteq> []
              \<longrightarrow> aggregate_percentage (modules f) (module_progress_of db (a_id a))
                    = Some (completion_percentage a))"
proof -
  from assms(1) have inv: "invariant db" and l: "linked db"
    by (simp_all add: reachable_invariant reachable_linked)
  from l assms(2) obtain f where f: "flow_of db a = Some f"
    by (auto simp: linked_iff)
  let ?ps = "module_progress_of db (a_id a)"
  let ?R = "\<forall>m\<in>set (modules f). is_required m \<longrightarrow>
               (\<exists>p\<in>set ?ps. module_id p = m_id m \<and> is_completed p)"
  from inv assms(2) have c: "if started_at a = None
                then status a = NOT_STARTED \<and> completion_percentage a = 0
                     \<and> completed_at a = None
                else started_consistent db a"
    unfolding invariant_iff by blast
  have none: "\<not> is_completed p" if "started_at a = None" "p \<in> set ?ps" for p
  proof -
    from that(2) have "p \<in> set (module_progress db)" "assignment_id p = a_id a"
      by (simp_all add: module_progress_of_def)
    moreover from inv have "\<forall>q\<in>set (module_progress db). is_completed q \<longrightarrow>
        (\<forall>b\<in>set (assignments db). a_id b = assignment_id q \<longrightarrow> started_at b \<noteq> None)"
      unfolding invariant_iff by blast
    ultimately show ?thesis using assms(2) that(1) by metis
  qed
  have 1: "status a = COMPLETED \<longleftrightarrow> ?R"
    if "started_at a \<noteq> None \<or> list_ex is_required (modules f)"
  proof (cases "started_at a = None")
    case False
    with c f show ?thesis
      by (simp add: started_consistent_def required_completed_iff)
  next
    case True
    with that obtain m where "m \<in> set (modules f)" "is_required m"
      by (auto simp: list_ex_iff)
    with none [OF True] have "\<not> ?R" by blast
    moreover from c True have "status a \<noteq> COMPLETED" by simp
    ultimately show ?thesis by simp
  qed
  have 2: "status a = NOT_STARTED" if "started_at a = None \<and> \<not> list_ex is_required (modules f)"
    using that c by simp
  have 3: "aggregate_percentage (modules f) ?ps = Some (completion_percentage a)"
    if "started_at a \<noteq> None \<or> modules f \<noteq> []"
  proof (cases "started_at a = None")
    case False
    with c f show ?thesis by (simp add: started_consistent_def)
  next
    case True
    with that have ne: "modules f \<noteq> []" by simp
    from none [OF True] have "filter is_completed ?ps = []"
      by (simp add: filter_empty_conv)
    with ne c True int_ratio_times_100_zero [of "int (length (modules f))"] show ?thesis
      by (simp add: aggregate_percentage_def)
  qed
  from f 1 2 3 show ?thesis by blast
qed

text \<open>
  Flow 2 with its two required modules completed and its optional module not: the
  assignment is \<open>COMPLETED\<close> at 66 percent. The fresh assignment of flow 1 is
  \<open>NOT_STARTED\<close> and its required modules are not completed. The fresh assignment of flow
  5, without required module, is \<open>NOT_STARTED\<close>.
\<close>

theorem completed_iff_required_witness:
  "map is_required (modules flow_three) = [True, False, True]
   \<and> map is_completed (module_progress_of required_done 1) = [True, False, True]
   \<and> map started_at (assignments required_done) = [Some 6]
   \<and> map status (assignments required_done) = [COMPLETED]
   \<and> map completion_percentage (assignments required_done) = [66]
   \<and> required_completed (modules flow_three) (module_progress_of required_done 1)
   \<and> map started_at (assignments two_assigned) = [None]
   \<and> map status (assignments two_assigned) = [NOT_STARTED]
   \<and> \<not> required_completed (modules flow_two) (module_progress_of two_assigned 1)
   \<and> aggregate_percentage (modules flow_two) (module_progress_of two_assigned 1) = Some 0
   \<and> map started_at (assignments optional_assigned) = [None]
   \<and> map status (assignments optional_assigned) = [NOT_STARTED]"
proof -
  let ?a = "the (assignment_of required_done 1)"
  let ?b = "the (assignment_of two_assigned 1)"
  let ?c = "the (assignment_of optional_assigned 1)"
  have r1: "required_done = run (fresh catalogue)
              [assign_to 2 5, Complete 1 20 7 plain 6, Complete 1 22 7 plain 7]"
    by (simp add: required_done_def)
  have r2: "two_assigned = run (fresh catalogue) [assign_to 1 5]"
    by (simp add: two_assigned_def)
  have r3: "optional_assigned = run (fresh catalogue) [assign_to 5 5]"
    by (simp add: optional_assigned_def)
  have a: "assignments required_done = [?a]" by code_simp
  have b: "assignments two_assigned = [?b]" by code_simp
  have c: "assignments optional_assigned = [?c]" by code_simp
  have fa: "flow_of required_done ?a = Some flow_three" "a_id ?a = 1" by code_simp+
  have fb: "flow_of two_assigned ?b = Some flow_two" "a_id ?b = 1"
    "list_ex is_required (modules flow_two)" "modules flow_two \<noteq> []" by code_simp+
  have fc: "flow_of optional_assigned ?c = Some flow_optional"
    "\<not> list_ex is_required (modules flow_optional)" by code_simp+
  have sa: "started_at ?a = Some 6" "status ?a = COMPLETED" "completion_percentage ?a = 66"
    by code_simp+
  have sb: "started_at ?b = None" "completion_percentage ?b = 0" by code_simp+
  have sc: "started_at ?c = None" by code_simp
  have e: "map is_required (modules flow_three) = [True, False, True]"
    "map is_completed (module_progress_of required_done 1) = [True, False, True]"
    by code_simp+
  from completed_iff_required [OF r1, of ?a] a fa sa
  have "\<forall>m\<in>set (modules flow_three). is_required m \<longrightarrow>
          (\<exists>p\<in>set (module_progress_of required_done 1). module_id p = m_id m \<and> is_completed p)"
    by simp
  then have a1: "required_completed (modules flow_three) (module_progress_of required_done 1)"
    by (simp add: required_completed_iff)
  from completed_iff_required [OF r2, of ?b] b fb sb
  have "(status ?b = COMPLETED \<longleftrightarrow>
          (\<forall>m\<in>set (modules flow_two). is_required m \<longrightarrow>
            (\<exists>p\<in>set (module_progress_of two_assigned 1). module_id p = m_id m \<and> is_completed p)))"
    and a3: "aggregate_percentage (modules flow_two) (module_progress_of two_assigned 1) = Some 0"
    by simp_all
  moreover have sb': "status ?b = NOT_STARTED" by code_simp
  ultimately have a2: "\<not> required_completed (modules flow_two) (module_progress_of two_assigned 1)"
    by (simp add: required_completed_iff)
  from completed_iff_required [OF r3, of ?c] c fc sc
  have a4: "status ?c = NOT_STARTED" by simp
  have l1: "map started_at (assignments required_done) = [Some 6]"
    "map status (assignments required_done) = [COMPLETED]"
    "map completion_percentage (assignments required_done) = [66]"
    using a sa by simp_all
  have l2: "map started_at (assignments two_assigned) = [None]"
    "map status (assignments two_assigned) = [NOT_STARTED]"
    using b sb sb' by simp_all
  have l3: "map started_at (assignments optional_assigned) = [None]"
    "map status (assignments optional_assigned) = [NOT_STARTED]"
    using c sc a4 by simp_all
  from e l1 a1 l2 a2 a3 l3 show ?thesis by (intro conjI)
qed

text \<open>
  The claim as stated fails: the fresh assignment of flow 5, which has no required module,
  is \<open>NOT_STARTED\<close> although every required module is completed.
\<close>

theorem completed_iff_required_counterexample:
  "map is_required (modules flow_optional) = [False]
   \<and> map a_flow_id (assignments optional_assigned) = [f_id flow_optional]
   \<and> map status (assignments optional_assigned) = [NOT_STARTED]
   \<and> required_completed (modules flow_optional) (module_progress_of optional_assigned 1)"
  by code_simp

section \<open>Monotone completion\<close>

text \<open>
  C10. In every session that the engine reaches, a progress row that is completed stays
  completed, whatever requests follow: no operation changes \<open>is_completed\<close> from true
  back to false. In particular, a quiz submission by the owner that does not pass, on a
  quiz module that was passed before, succeeds and overwrites the stored \<open>quiz_score\<close>
  and \<open>quiz_passed\<close> with the failing values, while \<open>is_completed\<close> stays true and the
  status and the percentage of the stored assignment are unchanged.
\<close>

theorem completion_monotone:
  assumes "db = run (fresh fs) rs"
  shows "(p \<in> set (module_progress db) \<and> is_completed p
          \<longrightarrow> (\<exists>q\<in>set (module_progress (run db rs')). p_id q = p_id p
                 \<and> assignment_id q = assignment_id p \<and> module_id q = module_id p
                 \<and> is_completed q))
       \<and> (progress_row db aid mid = Some p0 \<and> quiz_passed p0 = Some True
            \<and> assignment_of db aid = Some a \<and> a_user_id a = uid
            \<and> module_of db mid = Some m \<and> content_type m = ''quiz''
            \<and> quiz_data m = Some qd
            \<and> grade_quiz qd (answers qdata) = Inr (score, False)
          \<longrightarrow> (\<exists>p' db' a'. submit_quiz db aid mid uid qdata now = Inr (p', db')
                 \<and> progress_row db' aid mid = Some p'
                 \<and> quiz_score p' = Some score \<and> quiz_passed p' = Some False
                 \<and> is_completed p'
                 \<and> assignment_of db' aid = Some a'
                 \<and> status a' = status a
                 \<and> completion_percentage a' = completion_percentage a))"
proof (intro conjI impI)
  from assms have inv: "invariant db" by (simp add: reachable_invariant)
  {
    assume "p \<in> set (module_progress db) \<and> is_completed p"
    with run_progress [OF inv, of p rs']
    show "\<exists>q\<in>set (module_progress (run db rs')). p_id q = p_id p
                 \<and> assignment_id q = assignment_id p \<and> module_id q = module_id p
                 \<and> is_completed q"
      by blast
  }
  assume h: "progress_row db aid mid = Some p0 \<and> quiz_passed p0 = Some True
            \<and> assignment_of db aid = Some a \<and> a_user_id a = uid
            \<and> module_of db mid = Some m \<and> content_type m = ''quiz''
            \<and> quiz_data m = Some qd
            \<and> grade_quiz qd (answers qdata) = Inr (score, False)"
  then have pr: "progress_row db aid mid = Some p0" and a: "assignment_of db aid = Some a"
    by simp_all
  from progress_row_Some [OF pr] have p0: "p0 \<in> set (module_progress db)"
    "assignment_id p0 = aid" "module_id p0 = mid" by auto
  from inv p0(1) h have c0: "is_completed p0" by (auto simp: invariant_iff)
  from assignment_of_Some [OF a] have ain: "a \<in> set (assignments db)" "a_id a = aid" by auto
  from inv have "\<forall>q\<in>set (module_progress db). is_completed q \<longrightarrow>
        (\<forall>b\<in>set (assignments db). a_id b = assignment_id q \<longrightarrow> started_at b \<noteq> None)"
    unfolding invariant_iff by blast
  with p0(1,2) c0 ain have st: "started_at a \<noteq> None" by metis
  with inv ain(1) obtain f where f: "flow_of db a = Some f"
    by (auto simp: invariant_iff started_consistent_def split: option.splits)
  let ?p' = "set_time_spent (q_time_spent_minutes qdata)
               (p0\<lparr>quiz_score := Some score, quiz_passed := Some False\<rparr>)"
  have k: "p_id ?p' = p_id p0" "assignment_id ?p' = aid" "module_id ?p' = mid"
    "is_completed ?p' = is_completed p0" "quiz_score ?p' = Some score"
    "quiz_passed ?p' = Some False"
    using p0 by simp_all
  from f have "flow_of (save_progress ?p' db) (mark_started a now) = Some f" by simp
  from update_assignment_progress_total [OF this, of now]
  obtain a' where upd: "update_assignment_progress (save_progress ?p' db) (mark_started a now)
                          now = Inr a'" by blast
  let ?db' = "save_assignment a' (save_progress ?p' db)"
  from h p0 upd have ok: "submit_quiz db aid mid uid qdata now = Inr (?p', ?db')"
    by (simp add: submit_quiz_def Let_def)
  have row: "progress_row ?db' aid mid = Some ?p'"
    using p0 by (intro progress_row_saved [OF pr]) simp_all
  from mutation_same_completion [OF inv pr a k(1-4) st upd]
  have same: "status a' = status a" "completion_percentage a' = completion_percentage a"
    by simp_all
  have mono: "is_completed p0 \<longrightarrow> is_completed ?p'" using k(4) by simp
  from mutation_assignment [OF inv pr a k(1-3) mono upd] have "a_id a' = aid" by auto
  then have as: "assignment_of ?db' aid = Some a'"
    using assignment_of_save_assignment [of "save_progress ?p' db" aid a a'] a by simp
  from c0 k(4) have c: "is_completed ?p'" by simp
  from ok row k(5,6) c as same
  show "\<exists>p' db' a'. submit_quiz db aid mid uid qdata now = Inr (p', db')
                 \<and> progress_row db' aid mid = Some p'
                 \<and> quiz_score p' = Some score \<and> quiz_passed p' = Some False
                 \<and> is_completed p'
                 \<and> assignment_of db' aid = Some a'
                 \<and> status a' = status a
                 \<and> completion_percentage a' = completion_percentage a"
    by (intro exI [of _ ?p'] exI [of _ ?db'] exI [of _ a'] conjI)
qed


text \<open>
  The quiz of flow 3 was passed with four right answers (score 100); a second submission
  with two right answers stores score 50 and \<open>quiz_passed\<close> false, the module stays
  completed and the assignment stays \<open>IN_PROGRESS\<close> at 50 percent.
\<close>

theorem completion_monotone_witness:
  "map_option quiz_passed (progress_row quiz_passed_once 1 30) = Some (Some True)
   \<and> map_option quiz_score (progress_row quiz_passed_once 1 30) = Some (Some 100)
   \<and> map_option is_completed (progress_row quiz_passed_once 1 30) = Some True
   \<and> map_option status (assignment_of quiz_passed_once 1) = Some IN_PROGRESS
   \<and> map_option completion_percentage (assignment_of quiz_passed_once 1) = Some 50
   \<and> grade_quiz quiz_four (answers two_right) = Inr (50, False)
   \<and> (\<exists>p' db' a'. submit_quiz quiz_passed_once 1 30 7 two_right 8 = Inr (p', db')
         \<and> progress_row db' 1 30 = Some p'
         \<and> quiz_score p' = Some 50 \<and> quiz_passed p' = Some False
         \<and> is_completed p'
         \<and> assignment_of db' 1 = Some a'
         \<and> status a' = IN_PROGRESS
         \<and> completion_percentage a' = 50)
   \<and> (\<exists>q\<in>set (module_progress (run quiz_passed_once
                [Submit 1 30 7 two_right 8, Complete 1 31 7 plain 9])).
         module_id q = 30 \<and> is_completed q)"
proof -
  let ?rs = "[Submit 1 30 7 two_right 8, Complete 1 31 7 plain 9]"
  let ?p = "the (progress_row quiz_passed_once 1 30)"
  let ?a = "the (assignment_of quiz_passed_once 1)"
  let ?m = "the (module_of quiz_passed_once 30)"
  have r: "quiz_passed_once = run (fresh catalogue) [assign_to 3 5, Submit 1 30 7 all_right 6]"
    by (simp add: quiz_passed_once_def)
  have h: "progress_row quiz_passed_once 1 30 = Some ?p \<and> quiz_passed ?p = Some True
           \<and> assignment_of quiz_passed_once 1 = Some ?a \<and> a_user_id ?a = 7
           \<and> module_of quiz_passed_once 30 = Some ?m \<and> content_type ?m = ''quiz''
           \<and> quiz_data ?m = Some quiz_four
           \<and> grade_quiz quiz_four (answers two_right) = Inr (50, False)"
    by code_simp
  have o: "?p \<in> set (module_progress quiz_passed_once)" "is_completed ?p" "module_id ?p = 30"
    "quiz_score ?p = Some 100"
    by code_simp+
  have s: "status ?a = IN_PROGRESS" "completion_percentage ?a = 50"
    by code_simp+
  from completion_monotone [OF r, THEN conjunct2, THEN mp, OF h, of 8]
  have a1: "\<exists>p' db' a'. submit_quiz quiz_passed_once 1 30 7 two_right 8 = Inr (p', db')
         \<and> progress_row db' 1 30 = Some p'
         \<and> quiz_score p' = Some 50 \<and> quiz_passed p' = Some False
         \<and> is_completed p'
         \<and> assignment_of db' 1 = Some a'
         \<and> status a' = IN_PROGRESS
         \<and> completion_percentage a' = 50"
    unfolding s .
  from completion_monotone [OF r, THEN conjunct1, THEN mp, OF conjI [OF o(1,2)], of ?rs] o(3)
  have a2: "\<exists>q\<in>set (module_progress (run quiz_passed_once ?rs)).
              module_id q = 30 \<and> is_completed q"
    by auto
  from h have g: "grade_quiz quiz_four (answers two_right) = Inr (50, False)" by blast
  from h have hp: "progress_row quiz_passed_once 1 30 = Some ?p" "quiz_passed ?p = Some True"
    and ha: "assignment_of quiz_passed_once 1 = Some ?a" by blast+
  have b0: "map_option quiz_passed (progress_row quiz_passed_once 1 30) = Some (Some True)"
    using hp by (metis option.simps(9))
  have b1: "map_option quiz_score (progress_row quiz_passed_once 1 30) = Some (Some 100)"
    using hp(1) o(4) by (metis option.simps(9))
  have b2: "map_option is_completed (progress_row quiz_passed_once 1 30) = Some True"
    using hp(1) o(2) by (metis option.simps(9))
  have b3: "map_option status (assignment_of quiz_passed_once 1) = Some IN_PROGRESS"
    using ha s(1) by (metis option.simps(9))
  have b4: "map_option completion_percentage (assignment_of quiz_passed_once 1) = Some 50"
    using ha s(2) by (metis option.simps(9))
  from b0 b1 b2 b3 b4 g a1 a2 show ?thesis by (intro conjI)
qed

end
